(* ===== verification/Prelude.thy ===== *)
theory Prelude
  imports Main
begin

text \<open>
  Shared ground of the development: the result type of fallible operations, the
  collections of simplification rules the component proofs use, and the generic lemmas
  on lists, finite maps and optional values that more than one component needs.

  A Go function that returns \<open>(T, error)\<close> is modelled by a function into
  \<open>'e + 'a\<close>, \<open>Inl\<close> for the error. A Go map is a partial function
  \<open>'k \<rightharpoonup> 'v\<close>; where the code ranges over a map, the (unspecified) iteration order is
  an explicit argument, a list that \<^emph>\<open>enumerates\<close> the map.
\<close>

named_theorems text_simps \<open>definitions that evaluate operations on literal text\<close>
named_theorems io_simps \<open>definitions of single requests and file operations\<close>

type_synonym ('e, 'a) result = "'e + 'a"

section \<open>Results\<close>

definition is_ok :: "('e, 'a) result \<Rightarrow> bool" where
  "is_ok r = (case r of Inl _ \<Rightarrow> False | Inr _ \<Rightarrow> True)"

lemma is_ok_simps [simp]: "is_ok (Inr x)" "\<not> is_ok (Inl e)"
  by (simp_all add: is_ok_def)

lemma is_ok_iff: "is_ok r \<longleftrightarrow> (\<exists>x. r = Inr x)"
  by (cases r) auto

section \<open>Maps and their enumerations\<close>

text \<open>\<open>enumerates es m\<close>: the list \<open>es\<close> is one of the orders in which a range loop may
  visit the entries of \<open>m\<close>.\<close>

definition enumerates :: "('k \<times> 'v) list \<Rightarrow> ('k \<rightharpoonup> 'v) \<Rightarrow> bool" where
  "enumerates es m \<longleftrightarrow> distinct (map fst es) \<and> map_of es = m"

lemma enumerates_set:
  assumes "enumerates es m"
  shows "(k, v) \<in> set es \<longleftrightarrow> m k = Some v"
  using assms by (auto simp: enumerates_def)

lemma enumerates_empty [simp]: "enumerates [] m \<longleftrightarrow> m = Map.empty"
  by (auto simp: enumerates_def)

lemma enumerates_same_set:
  assumes "enumerates es m" and "enumerates fs m"
  shows "set es = set fs"
  using assms by (auto simp: enumerates_set)

lemma enumerates_finite: "enumerates es m \<Longrightarrow> finite (dom m)"
  by (auto simp: enumerates_def finite_dom_map_of)

lemma enumerates_ex: "finite (dom m) \<Longrightarrow> \<exists>es. enumerates es m"
proof -
  assume "finite (dom m)"
  then obtain ks where ks: "set ks = dom m" "distinct ks"
    by (meson finite_distinct_list)
  have "map_of (map (\<lambda>k. (k, the (m k))) ks) = m"
    using ks by (intro ext) (force simp: map_of_map_restrict restrict_map_def domIff)
  with ks(2) have "enumerates (map (\<lambda>k. (k, the (m k))) ks) m"
    by (simp add: enumerates_def comp_def)
  then show ?thesis by blast
qed

text \<open>Deleting a set of keys from a map.\<close>

definition map_remove :: "('k \<rightharpoonup> 'v) \<Rightarrow> 'k \<Rightarrow> ('k \<rightharpoonup> 'v)" where
  "map_remove m k = m(k := None)"

lemma map_remove_apply [simp]: "map_remove m k j = (if j = k then None else m j)"
  by (simp add: map_remove_def)

lemma dom_map_remove [simp]: "dom (map_remove m k) = dom m - {k}"
  by (auto simp: dom_def)

lemma map_remove_absent [simp]: "m k = None \<Longrightarrow> map_remove m k = m"
  by (auto simp: map_remove_def)

lemma map_remove_upd_same [simp]: "map_remove (m(k \<mapsto> v)) k = map_remove m k"
  by (auto simp: map_remove_def)

lemma map_remove_upd_other [simp]: "j \<noteq> k \<Longrightarrow> map_remove (m(j \<mapsto> v)) k = (map_remove m k)(j \<mapsto> v)"
  by (auto simp: map_remove_def)

lemma map_remove_upd: "m k = None \<Longrightarrow> map_remove (m(k \<mapsto> v)) k = m"
  by (auto simp: map_remove_def)

section \<open>Lists\<close>

lemma dropWhile_idem [simp]: "dropWhile P (dropWhile P xs) = dropWhile P xs"
  by (induction xs) auto

lemma dropWhile_hd: "dropWhile P xs = y # ys \<Longrightarrow> \<not> P y"
  by (metis hd_dropWhile list.distinct(1) list.sel(1))

lemma dropWhile_map_inv:
  "(\<And>x. P (f x) = P x) \<Longrightarrow> dropWhile P (map f xs) = map f (dropWhile P xs)"
  by (induction xs) auto

text \<open>The first and the last position of a character.\<close>

fun index_of :: "'a \<Rightarrow> 'a list \<Rightarrow> nat option" where
  "index_of c [] = None"
| "index_of c (x # xs) = (if x = c then Some 0 else map_option Suc (index_of c xs))"

definition last_index_of :: "'a \<Rightarrow> 'a list \<Rightarrow> nat option" where
  "last_index_of c xs = map_option (\<lambda>i. length xs - Suc i) (index_of c (rev xs))"

lemma index_of_None [simp]: "index_of c xs = None \<longleftrightarrow> c \<notin> set xs"
  by (induction xs) auto

lemma index_of_append:
  "index_of c (xs @ ys) =
     (if c \<in> set xs then index_of c xs else map_option (\<lambda>i. length xs + i) (index_of c ys))"
proof (induction xs)
  case Nil
  then show ?case by (cases "index_of c ys") (simp_all del: index_of_None)
next
  case (Cons x xs)
  then show ?case by (cases "index_of c ys") (auto simp del: index_of_None)
qed

lemma index_of_Some_iff:
  "index_of c xs = Some i \<longleftrightarrow> i < length xs \<and> xs ! i = c \<and> c \<notin> set (take i xs)"
proof (induction xs arbitrary: i)
  case Nil
  then show ?case by simp
next
  case (Cons x xs)
  then show ?case by (cases i) auto
qed

lemma last_index_of_None [simp]: "last_index_of c xs = None \<longleftrightarrow> c \<notin> set xs"
  by (simp add: last_index_of_def)

lemma last_index_of_split:
  "c \<notin> set ys \<Longrightarrow> last_index_of c (xs @ c # ys) = Some (length xs)"
  by (simp add: last_index_of_def index_of_append)

lemma last_index_of_SomeD:
  assumes "last_index_of c xs = Some i"
  shows "\<exists>ys zs. xs = ys @ c # zs \<and> length ys = i \<and> c \<notin> set zs"
proof -
  from assms have "c \<in> set xs" by (metis last_index_of_None option.distinct(1))
  then obtain ys zs where "xs = ys @ c # zs" "c \<notin> set zs"
    by (meson split_list_last)
  with assms show ?thesis by (auto simp: last_index_of_split)
qed

text \<open>Splitting at every occurrence of a separator, and into the maximal runs of
  elements that are not separators.\<close>

fun split_by :: "('a \<Rightarrow> bool) \<Rightarrow> 'a list \<Rightarrow> 'a list list" where
  "split_by sep [] = [[]]"
| "split_by sep (x # xs) =
     (if sep x then [] # split_by sep xs
      else (x # hd (split_by sep xs)) # tl (split_by sep xs))"

definition split_on :: "'a \<Rightarrow> 'a list \<Rightarrow> 'a list list" where
  "split_on c = split_by (\<lambda>x. x = c)"

definition runs :: "('a \<Rightarrow> bool) \<Rightarrow> 'a list \<Rightarrow> 'a list list" where
  "runs sep xs = filter (\<lambda>w. w \<noteq> []) (split_by sep xs)"

lemma split_by_nonempty [simp]: "split_by sep xs \<noteq> []"
  by (cases xs) auto

text \<open>The equation for evaluation visits the rest once.\<close>

lemma split_by_code [code]:
  "split_by sep [] = [[]]"
  "split_by sep (x # xs) =
     (let ws = split_by sep xs in if sep x then [] # ws else (x # hd ws) # tl ws)"
  by (simp_all add: Let_def)

lemma split_by_append:
  "\<forall>x \<in> set w. \<not> sep x \<Longrightarrow> sep c \<Longrightarrow> split_by sep (w @ c # xs) = w # split_by sep xs"
  by (induction w) auto

lemma split_by_single: "\<forall>x \<in> set w. \<not> sep x \<Longrightarrow> split_by sep w = [w]"
  by (induction w) auto

lemma split_by_no_sep: "w \<in> set (split_by sep xs) \<Longrightarrow> x \<in> set w \<Longrightarrow> \<not> sep x"
proof (induction xs arbitrary: w)
  case Nil
  then show ?case by simp
next
  case (Cons y ys)
  have hd: "hd (split_by sep ys) \<in> set (split_by sep ys)" by simp
  moreover have "set (tl (split_by sep ys)) \<subseteq> set (split_by sep ys)"
    by (simp add: list.set_sel(2) subsetI)
  ultimately show ?case using Cons by (fastforce split: if_splits)
qed

lemma split_on_append: "c \<notin> set w \<Longrightarrow> split_on c (w @ c # xs) = w # split_on c xs"
  unfolding split_on_def by (rule split_by_append) auto

lemma split_on_single: "c \<notin> set w \<Longrightarrow> split_on c w = [w]"
  unfolding split_on_def by (rule split_by_single) auto

lemma runs_no_sep: "w \<in> set (runs sep xs) \<Longrightarrow> w \<noteq> [] \<and> (\<forall>x \<in> set w. \<not> sep x)"
  by (auto simp: runs_def dest: split_by_no_sep)

end
