(* ===== verification/GoLib.thy ===== *)
theory GoLib
  imports Prelude "HOL-Library.Char_ord" "HOL-Library.Word"
begin

text \<open>
  The functions of Go's standard library that the sources call: \<^verbatim>\<open>strings\<close>,
  \<^verbatim>\<open>strconv\<close>, the host/port functions of \<^verbatim>\<open>net\<close> and the error values of
  \<^verbatim>\<open>errors\<close>. A Go string is a list of bytes, so \<open>string\<close> of HOL is its model.

  The case and white-space functions are modelled on ASCII text: \<open>ToLower\<close> and
  \<open>EqualFold\<close> map the letters A to Z, \<open>TrimSpace\<close> and \<open>Fields\<close> know the six ASCII
  white-space bytes. On bytes beyond ASCII Go consults its Unicode tables; those are
  outside the model (the definitions leave such bytes alone).
\<close>

section \<open>Strings\<close>

definition is_space :: "char \<Rightarrow> bool" where
  "is_space c \<longleftrightarrow> c \<in> {CHR 0x09, CHR 0x0A, CHR 0x0B, CHR 0x0C, CHR 0x0D, CHR '' ''}"

definition lower_char :: "char \<Rightarrow> char" where
  "lower_char c =
     (let n = (of_char c :: nat) in if 65 \<le> n \<and> n \<le> 90 then char_of (n + 32) else c)"

definition TrimSpace :: "string \<Rightarrow> string" where
  "TrimSpace s = rev (dropWhile is_space (rev (dropWhile is_space s)))"

definition ToLower :: "string \<Rightarrow> string" where
  "ToLower s = map lower_char s"

definition EqualFold :: "string \<Rightarrow> string \<Rightarrow> bool" where
  "EqualFold s t \<longleftrightarrow> ToLower s = ToLower t"

definition ContainsAny :: "string \<Rightarrow> string \<Rightarrow> bool" where
  "ContainsAny s cs \<longleftrightarrow> (\<exists>c \<in> set s. c \<in> set cs)"

definition HasPrefix :: "string \<Rightarrow> string \<Rightarrow> bool" where
  "HasPrefix s p \<longleftrightarrow> take (length p) s = p"

definition HasSuffix :: "string \<Rightarrow> string \<Rightarrow> bool" where
  "HasSuffix s p \<longleftrightarrow> HasPrefix (rev s) (rev p)"

definition TrimPrefix :: "string \<Rightarrow> string \<Rightarrow> string" where
  "TrimPrefix s p = (if HasPrefix s p then drop (length p) s else s)"

definition TrimSuffix :: "string \<Rightarrow> string \<Rightarrow> string" where
  "TrimSuffix s p = (if HasSuffix s p then take (length s - length p) s else s)"

definition Fields :: "string \<Rightarrow> string list" where
  "Fields s = runs is_space s"

fun Join :: "string list \<Rightarrow> string \<Rightarrow> string" where
  "Join [] sep = []"
| "Join [w] sep = w"
| "Join (w # ws) sep = w @ sep @ Join ws sep"

declare is_space_def [text_simps] lower_char_def [text_simps] TrimSpace_def [text_simps] ToLower_def [text_simps]
  HasPrefix_def [text_simps] TrimPrefix_def [text_simps]

subsection \<open>Case and white space\<close>

lemma lower_char_idem [simp]: "lower_char (lower_char c) = lower_char c"
  by (auto simp: lower_char_def Let_def)

lemma is_space_lower [simp]: "is_space (lower_char c) = is_space c"
proof (cases "65 \<le> (of_char c :: nat) \<and> (of_char c :: nat) \<le> 90")
  case True
  let ?n = "of_char c :: nat"
  have of_lower: "of_char (lower_char c) = ?n + 32"
    using True by (simp add: lower_char_def Let_def)
  have spaces: "is_space d \<longleftrightarrow> (of_char d :: nat) \<in> {9, 10, 11, 12, 13, 32}" for d
  proof -
    have "is_space d \<longleftrightarrow> (of_char d :: nat) \<in> of_char ` {CHR 0x09, CHR 0x0A, CHR 0x0B, CHR 0x0C, CHR 0x0D, CHR '' ''}"
      unfolding is_space_def by (rule inj_image_mem_iff [symmetric]) (rule inj_of_char)
    then show ?thesis by simp
  qed
  show ?thesis using True of_lower by (simp add: spaces)
next
  case False
  then show ?thesis by (auto simp: lower_char_def Let_def)
qed

lemma ToLower_idem [simp]: "ToLower (ToLower s) = ToLower s"
  by (simp add: ToLower_def)

lemma ToLower_length [simp]: "length (ToLower s) = length s"
  by (simp add: ToLower_def)

lemma ToLower_append: "ToLower (s @ t) = ToLower s @ ToLower t"
  by (simp add: ToLower_def)

lemma TrimSpace_ToLower: "TrimSpace (ToLower s) = ToLower (TrimSpace s)"
  by (simp add: TrimSpace_def ToLower_def rev_map dropWhile_map_inv)

lemma TrimSpace_idem [simp]: "TrimSpace (TrimSpace s) = TrimSpace s"
proof -
  let ?d = "dropWhile is_space"
  have "?d (rev (?d (rev (?d s)))) = rev (?d (rev (?d s)))"
  proof (cases "rev (?d (rev (?d s)))")
    case Nil
    then show ?thesis by (simp only: dropWhile.simps)
  next
    case (Cons c cs)
    obtain us where "rev (?d s) = us @ ?d (rev (?d s))"
      by (metis takeWhile_dropWhile_id)
    then have "?d s = rev (?d (rev (?d s))) @ rev us"
      by (metis rev_append rev_rev_ident)
    with Cons have "?d s = c # cs @ rev us" by simp
    then have "\<not> is_space c" by (rule dropWhile_hd)
    with Cons show ?thesis by simp
  qed
  then show ?thesis by (simp add: TrimSpace_def)
qed

lemma TrimSpace_nil [simp]: "TrimSpace [] = []"
  by (simp add: TrimSpace_def)

lemma EqualFold_refl [simp]: "EqualFold s s"
  by (simp add: EqualFold_def)

subsection \<open>Prefixes and suffixes\<close>

lemma HasPrefix_append [simp]: "HasPrefix (p @ s) p"
  by (simp add: HasPrefix_def)

lemma HasPrefix_iff: "HasPrefix s p \<longleftrightarrow> (\<exists>t. s = p @ t)"
  unfolding HasPrefix_def by (metis append_eq_conv_conj append_take_drop_id)

lemma HasSuffix_iff: "HasSuffix s p \<longleftrightarrow> (\<exists>t. s = t @ p)"
  unfolding HasSuffix_def HasPrefix_iff by (metis rev_append rev_rev_ident)

lemma TrimPrefix_append [simp]: "TrimPrefix (p @ s) p = s"
  by (simp add: TrimPrefix_def)

lemma TrimSuffix_append [simp]: "TrimSuffix (s @ p) p = s"
  by (auto simp: TrimSuffix_def HasSuffix_iff)

subsection \<open>Words\<close>

text \<open>A word that \<open>Fields\<close> keeps whole.\<close>

definition word_ok :: "string \<Rightarrow> bool" where
  "word_ok w \<longleftrightarrow> w \<noteq> [] \<and> (\<forall>c \<in> set w. \<not> is_space c)"

lemma Fields_Cons: "word_ok w \<Longrightarrow> Fields (w @ CHR '' '' # xs) = w # Fields xs"
  by (simp add: Fields_def runs_def word_ok_def split_by_append is_space_def)

lemma Fields_word: "word_ok w \<Longrightarrow> Fields w = [w]"
  by (simp add: Fields_def runs_def word_ok_def split_by_single)

lemma Fields_Join: "(\<forall>w \<in> set ws. word_ok w) \<Longrightarrow> Fields (Join ws '' '') = ws"
proof (induction ws)
  case Nil
  then show ?case by (simp add: Fields_def runs_def)
next
  case (Cons w ws)
  then show ?case
  proof (cases ws)
    case Nil
    with Cons show ?thesis by (simp add: Fields_word)
  next
    case (Cons v us)
    with Cons.IH Cons.prems Fields_Cons [of w "Join ws '' ''"] show ?thesis by simp
  qed
qed

section \<open>Numbers\<close>

text \<open>\<open>strconv.ParseInt(s, base, bits)\<close> for the bases 10 and 16 the sources use: an
  optional sign, at least one digit, and the range of a signed \<open>bits\<close>-bit integer.
  \<open>None\<close> is its error (syntax or range). \<open>strconv.Atoi\<close> is base 10 at 64 bits.\<close>

definition digit_val :: "char \<Rightarrow> nat option" where
  "digit_val c =
     (let n = (of_char c :: nat) in
      if 48 \<le> n \<and> n \<le> 57 then Some (n - 48)
      else if 97 \<le> n \<and> n \<le> 122 then Some (n - 87)
      else if 65 \<le> n \<and> n \<le> 90 then Some (n - 55)
      else None)"

fun parse_digits :: "nat \<Rightarrow> nat \<Rightarrow> string \<Rightarrow> nat option" where
  "parse_digits b acc [] = Some acc"
| "parse_digits b acc (c # cs) =
     (case digit_val c of
        None \<Rightarrow> None
      | Some d \<Rightarrow> if d < b then parse_digits b (acc * b + d) cs else None)"

definition parse_nat :: "nat \<Rightarrow> string \<Rightarrow> nat option" where
  "parse_nat b s = (if s = [] then None else parse_digits b 0 s)"

definition ParseInt :: "string \<Rightarrow> nat \<Rightarrow> nat \<Rightarrow> int option" where
  "ParseInt s b bits =
     (let neg = (s \<noteq> [] \<and> hd s = CHR ''-'');
          body = (if s \<noteq> [] \<and> (hd s = CHR ''-'' \<or> hd s = CHR ''+'') then tl s else s)
      in case parse_nat b body of
           None \<Rightarrow> None
         | Some n \<Rightarrow>
             (let v = (if neg then - int n else int n) in
              if - (2 ^ (bits - 1)) \<le> v \<and> v < 2 ^ (bits - 1) then Some v else None))"

definition Atoi :: "string \<Rightarrow> int option" where
  "Atoi s = ParseInt s 10 64"

definition digit_char :: "nat \<Rightarrow> char" where
  "digit_char d = char_of (if d < 10 then 48 + d else 87 + d)"

fun nat_digits :: "nat \<Rightarrow> string" where
  "nat_digits n = (if n < 10 then [digit_char n] else nat_digits (n div 10) @ [digit_char (n mod 10)])"

declare nat_digits.simps [simp del]

definition Itoa :: "nat \<Rightarrow> string" where
  "Itoa n = nat_digits n"

text \<open>\<^verbatim>\<open>%d\<close> on a signed number.\<close>

definition FormatInt :: "int \<Rightarrow> string" where
  "FormatInt i = (if i < 0 then CHR ''-'' # Itoa (nat (- i)) else Itoa (nat i))"

lemma digit_val_digit_char: "d < 10 \<Longrightarrow> digit_val (digit_char d) = Some d"
  by (simp add: digit_val_def digit_char_def)

lemma parse_digits_append:
  "parse_digits b acc (s @ t) = (case parse_digits b acc s of None \<Rightarrow> None | Some a \<Rightarrow> parse_digits b a t)"
  by (induction b acc s rule: parse_digits.induct) (auto split: option.splits)

lemma parse_digits_nat_digits: "parse_digits 10 0 (nat_digits n) = Some n"
proof (induction n rule: nat_digits.induct)
  case (1 n)
  show ?case
  proof (cases "n < 10")
    case True
    then show ?thesis by (simp add: nat_digits.simps [of n] digit_val_digit_char)
  next
    case False
    with 1 have "parse_digits 10 0 (nat_digits (n div 10)) = Some (n div 10)" by simp
    with False show ?thesis
      by (simp add: nat_digits.simps [of n] parse_digits_append digit_val_digit_char)
  qed
qed

lemma digit_char_no_sign:
  assumes "d < 10"
  shows "digit_char d \<noteq> CHR ''-''" and "digit_char d \<noteq> CHR ''+''"
    and "digit_char d \<noteq> CHR '':''" and "digit_char d \<noteq> CHR ''[''" and "digit_char d \<noteq> CHR '']''"
proof -
  have "d \<in> {0, 1, 2, 3, 4, 5, 6, 7, 8, 9}" using assms by auto
  then show "digit_char d \<noteq> CHR ''-''" and "digit_char d \<noteq> CHR ''+''"
    and "digit_char d \<noteq> CHR '':''" and "digit_char d \<noteq> CHR ''[''" and "digit_char d \<noteq> CHR '']''"
    by (auto simp: digit_char_def char_of_def)
qed

lemma nat_digits_set: "set (nat_digits n) \<subseteq> digit_char ` {d. d < 10}"
proof (induction n rule: nat_digits.induct)
  case (1 n)
  then show ?case by (cases "n < 10") (auto simp: nat_digits.simps [of n])
qed

lemma nat_digits_nonempty [simp]: "nat_digits n \<noteq> []"
  by (subst nat_digits.simps) simp

lemma Itoa_plain:
  shows "CHR '':'' \<notin> set (Itoa n)" and "CHR ''['' \<notin> set (Itoa n)" and "CHR '']'' \<notin> set (Itoa n)"
  using nat_digits_set [of n] digit_char_no_sign
  by (auto simp: Itoa_def) (metis (no_types, lifting) digit_char_no_sign imageE mem_Collect_eq subsetD)+

lemma Atoi_Itoa:
  assumes "n < 2 ^ 63"
  shows "Atoi (Itoa n) = Some (int n)"
proof -
  have "hd (nat_digits n) \<in> set (nat_digits n)" by simp
  then obtain d where d: "d < 10" "hd (nat_digits n) = digit_char d"
    using nat_digits_set [of n] by blast
  then have "hd (nat_digits n) \<noteq> CHR ''-''" "hd (nat_digits n) \<noteq> CHR ''+''"
    using digit_char_no_sign [OF d(1)] by simp_all
  moreover have "int n < 2 ^ 63" using assms by (metis of_nat_less_iff of_nat_numeral of_nat_power)
  ultimately show ?thesis
    by (simp add: Atoi_def ParseInt_def parse_nat_def Itoa_def parse_digits_nat_digits)
qed

end
