(* ===== verification/Errors.thy ===== *)
theory Errors
  imports GoLib
begin

text \<open>
  The error values of the program. The package-level \<^verbatim>\<open>errors.New\<close> values of the
  sources are the constructors of \<open>sentinel\<close>, under the names they have there
  (\<open>GateErrInvalidMode\<close> is \<^verbatim>\<open>gate.ErrInvalidMode\<close>), together with the two errors of
  \<^verbatim>\<open>context\<close> and \<^verbatim>\<open>os.ErrProcessDone\<close>. \<open>Wrapped e args\<close> is
  \<^verbatim>\<open>fmt.Errorf("%w: ...", e, args...)\<close> with the operands of the format,
  \<open>NewError msg args\<close> is an \<^verbatim>\<open>errors.New\<close> or \<^verbatim>\<open>fmt.Errorf\<close> that wraps
  nothing, \<open>LibError\<close> an error the standard library or the system returns,
  \<open>ProcessExit\<close> the \<^verbatim>\<open>exec.ExitError\<close> of a child, \<open>NativeExit op code\<close> the
  \<^verbatim>\<open>nativeExitError\<close> of the embedded runtime. \<open>errors_is\<close> is \<^verbatim>\<open>errors.Is\<close>
  against a sentinel.
\<close>

datatype sentinel =
    ErrInvalidMode | ErrBackendRequired | ErrBackendNameRequired | ErrDuplicateBackend
  | ErrBackendAddressRequired | ErrInvalidBackendAddress | ErrInvalidForwardingMode
  | ErrNotStarted | ErrAlreadyStarted | ErrNotReady | ErrBackendNotFound
  | ErrDynamicBackendsUnsupported | ErrNoBinary | ErrNoLibrary | ErrUnsupportedEmbeddedMode
  | ErrInvalidChecksum
  | errSubprocessExitedBeforeReady | ErrDynamicAddressExhausted | ErrAddressNotOwned
  | GateErrInvalidMode | GateErrInvalidForwarding
  | ContextCanceled | ContextDeadlineExceeded | OsErrProcessDone

datatype go_error =
    Sentinel sentinel
  | Wrapped go_error "string list"
  | NewError string "string list"
  | LibError string
  | ProcessExit int
  | NativeExit string int

fun errors_is :: "go_error \<Rightarrow> sentinel \<Rightarrow> bool" where
  "errors_is (Sentinel s) t \<longleftrightarrow> s = t"
| "errors_is (Wrapped e args) t \<longleftrightarrow> errors_is e t"
| "errors_is e t \<longleftrightarrow> False"

text \<open>\<^verbatim>\<open>errors.As(err, &exitErr)\<close> for \<^verbatim>\<open>*exec.ExitError\<close>.\<close>

fun is_exit_error :: "go_error \<Rightarrow> bool" where
  "is_exit_error (ProcessExit c) \<longleftrightarrow> True"
| "is_exit_error (Wrapped e args) \<longleftrightarrow> is_exit_error e"
| "is_exit_error e \<longleftrightarrow> False"

lemma errors_is_functional: "errors_is e s \<Longrightarrow> errors_is e t \<Longrightarrow> s = t"
  by (induction e t rule: errors_is.induct) auto

section \<open>Host and port\<close>

text \<open>\<^verbatim>\<open>net.SplitHostPort\<close> and \<^verbatim>\<open>net.JoinHostPort\<close>.\<close>

definition SplitHostPort :: "string \<Rightarrow> (go_error, string \<times> string) result" where
  "SplitHostPort s =
     (case last_index_of (CHR '':'') s of
        None \<Rightarrow> Inl (LibError ''missing port in address'')
      | Some i \<Rightarrow>
          if hd s = CHR ''['' then
            (case index_of (CHR '']'') s of
               None \<Rightarrow> Inl (LibError ''missing ']' in address'')
             | Some e \<Rightarrow>
                 if e + 1 = length s then Inl (LibError ''missing port in address'')
                 else if e + 1 \<noteq> i then
                   (if s ! (e + 1) = CHR '':'' then Inl (LibError ''too many colons in address'')
                    else Inl (LibError ''missing port in address''))
                 else if CHR ''['' \<in> set (drop 1 s) then
                   Inl (LibError ''unexpected '[' in address'')
                 else if CHR '']'' \<in> set (drop (e + 1) s) then
                   Inl (LibError ''unexpected ']' in address'')
                 else Inr (drop 1 (take e s), drop (i + 1) s))
          else if CHR '':'' \<in> set (take i s) then Inl (LibError ''too many colons in address'')
          else if CHR ''['' \<in> set s then Inl (LibError ''unexpected '[' in address'')
          else if CHR '']'' \<in> set s then Inl (LibError ''unexpected ']' in address'')
          else Inr (take i s, drop (i + 1) s))"

definition JoinHostPort :: "string \<Rightarrow> string \<Rightarrow> string" where
  "JoinHostPort host port =
     (if CHR '':'' \<in> set host then ''['' @ host @ '']:'' @ port else host @ '':'' @ port)"

text \<open>A host or a port without the characters the notation reserves.\<close>

definition plain_host :: "string \<Rightarrow> bool" where
  "plain_host h \<longleftrightarrow> CHR ''['' \<notin> set h \<and> CHR '']'' \<notin> set h"

definition plain_port :: "string \<Rightarrow> bool" where
  "plain_port p \<longleftrightarrow> plain_host p \<and> CHR '':'' \<notin> set p"

lemma plain_port_Itoa [simp]: "plain_port (Itoa n)"
  by (simp add: plain_port_def plain_host_def Itoa_plain)

lemma SplitHostPort_JoinHostPort:
  assumes "plain_host h" and "plain_port p"
  shows "SplitHostPort (JoinHostPort h p) = Inr (h, p)"
proof (cases "CHR '':'' \<in> set h")
  case True
  let ?s = "CHR ''['' # h @ CHR '']'' # CHR '':'' # p"
  have s: "JoinHostPort h p = ?s" using True by (simp add: JoinHostPort_def)
  have "last_index_of (CHR '':'') ((CHR ''['' # h @ [CHR '']'']) @ CHR '':'' # p)
      = Some (length (CHR ''['' # h @ [CHR '']'']))"
    using assms by (intro last_index_of_split) (simp add: plain_port_def)
  then have li: "last_index_of (CHR '':'') ?s = Some (length h + 2)" by simp
  have ie: "index_of (CHR '']'') ?s = Some (length h + 1)"
    using assms by (auto simp: plain_host_def index_of_append)
  show ?thesis
    using assms unfolding s SplitHostPort_def li ie
    by (auto simp: plain_port_def plain_host_def)
next
  case False
  have s: "JoinHostPort h p = h @ CHR '':'' # p" using False by (simp add: JoinHostPort_def)
  have li: "last_index_of (CHR '':'') (h @ CHR '':'' # p) = Some (length h)"
    using assms by (intro last_index_of_split) (simp add: plain_port_def)
  have "hd (h @ CHR '':'' # p) \<noteq> CHR ''[''"
    using assms by (cases h) (auto simp: plain_host_def)
  then show ?thesis
    using assms False unfolding s SplitHostPort_def li
    by (auto simp: plain_port_def plain_host_def)
qed

lemma SplitHostPort_plain:
  assumes "SplitHostPort s = Inr (h, p)"
  shows "plain_host h \<and> plain_port p"
proof -
  obtain i where li: "last_index_of (CHR '':'') s = Some i"
    using assms by (auto simp: SplitHostPort_def split: option.splits)
  then obtain u v where s: "s = u @ CHR '':'' # v" "length u = i" "CHR '':'' \<notin> set v"
    by (auto dest: last_index_of_SomeD)
  show ?thesis
  proof (cases "hd s = CHR ''[''")
    case True
    with assms li obtain e where e: "index_of (CHR '']'') s = Some e" "e + 1 = i"
      "CHR ''['' \<notin> set (drop 1 s)" "CHR '']'' \<notin> set (drop i s)"
      "h = drop 1 (take e s)" "p = drop (i + 1) s"
      by (auto simp: SplitHostPort_def split: option.splits if_splits)
    from e(1) have "CHR '']'' \<notin> set (take e s)" by (simp add: index_of_Some_iff)
    then have "CHR '']'' \<notin> set h" using e(5) by (metis in_set_dropD)
    moreover have "CHR ''['' \<notin> set h"
      using e(3,5) by (metis drop_take in_set_takeD)
    moreover have "p = v" using e(6) s by simp
    moreover have "CHR '']'' \<notin> set v" "CHR ''['' \<notin> set v"
      using e(3,4) s by (cases u; auto)+
    ultimately show ?thesis using s(3) by (simp add: plain_host_def plain_port_def)
  next
    case False
    with assms li s show ?thesis
      by (auto simp: SplitHostPort_def plain_host_def plain_port_def split: if_splits)
  qed
qed

end
