(* ===== verification/Options.thy ===== *)
theory Options
  imports Errors
begin

text \<open>
  The configuration of a server: \<^verbatim>\<open>vialite.go\<close> (the types) and
  \<^verbatim>\<open>options.go\<close> (\<open>validate\<close>, \<open>normalizeBackend\<close>,
  \<open>backendLookupName\<close>).

  \<^verbatim>\<open>Mode\<close> is an integer type and \<^verbatim>\<open>ForwardingMode\<close> a string type in the code,
  so that values outside the named constants exist and have to be rejected; they are
  \<open>int\<close> and \<open>string\<close> here. A \<^verbatim>\<open>time.Duration\<close> is a signed 64-bit number of
  nanoseconds. A logger is a number, the process default is 0. The hook
  \<^verbatim>\<open>ReserveLoopbackAddress\<close> is an external function; the record keeps whether it is
  set, and what it answers is part of the environment of the operations that call it.
\<close>

section \<open>The types\<close>

type_synonym mode = int

definition ModeEmbedded :: mode where "ModeEmbedded = 0"
definition ModeSubprocess :: mode where "ModeSubprocess = 1"

definition ForwardingNone :: string where "ForwardingNone = ''none''"
definition ForwardingLegacy :: string where "ForwardingLegacy = ''legacy''"
definition ForwardingVelocity :: string where "ForwardingVelocity = ''velocity''"

type_synonym duration = "64 word"

definition Second :: duration where "Second = 1000000000"
definition Minute :: duration where "Minute = 60 * Second"

record backend =
  b_Name :: string
  b_Address :: string
  b_Version :: string
  b_Detect :: bool
  b_Forwarding :: string

record restart_policy =
  MinBackoff :: duration
  MaxBackoff :: duration
  MaxRetries :: int

record options =
  o_Mode :: mode
  o_GateProtocol :: string
  o_Bind :: string
  o_LibraryPath :: string
  o_BinaryPath :: string
  o_Version :: string
  o_Mirror :: string
  o_Offline :: bool
  o_Logger :: "nat option"
  o_RestartPolicy :: "restart_policy option"
  o_ShutdownTimeout :: duration
  o_AllowDynamicBackends :: bool
  o_Backends :: "backend list"
  o_ReserveHook :: bool

definition default_bind :: string where "default_bind = ''127.0.0.1:0''"

definition default_logger :: nat where "default_logger = 0"

section \<open>Normalising one backend\<close>

definition backendLookupName :: "string \<Rightarrow> string" where
  "backendLookupName name = ToLower (TrimSpace name)"

definition auto_version :: string where "auto_version = ''auto''"

definition host_blanks :: string where
  "host_blanks = [CHR '' '', CHR 0x09, CHR 0x0D, CHR 0x0A]"

definition forwarding_modes :: "string set" where
  "forwarding_modes = {ForwardingNone, ForwardingLegacy, ForwardingVelocity}"

text \<open>The checks on the address: host and port have to be separable, the host not blank
  and the port a number from 1 to 65535.\<close>

definition check_address :: "backend \<Rightarrow> go_error option" where
  "check_address b =
     (case SplitHostPort (b_Address b) of
        Inl e \<Rightarrow> Some (Wrapped (Sentinel ErrInvalidBackendAddress) [b_Name b])
      | Inr (host, port) \<Rightarrow>
          if TrimSpace host = [] \<or> ContainsAny host host_blanks then
            Some (Wrapped (Sentinel ErrInvalidBackendAddress) [b_Name b, host])
          else case Atoi port of
            None \<Rightarrow> Some (Wrapped (Sentinel ErrInvalidBackendAddress) [b_Name b, port])
          | Some n \<Rightarrow>
              if n < 1 \<or> n > 65535
              then Some (Wrapped (Sentinel ErrInvalidBackendAddress) [b_Name b, port])
              else None)"

text \<open>The defaults for the version and the forwarding mode, and the check of the latter.\<close>

definition default_version :: "backend \<Rightarrow> backend" where
  "default_version b =
     (if b_Version b = [] \<or> EqualFold (b_Version b) auto_version
      then b\<lparr>b_Version := auto_version, b_Detect := True\<rparr> else b)"

definition default_forwarding :: "backend \<Rightarrow> backend" where
  "default_forwarding b =
     (if b_Forwarding b = [] then b\<lparr>b_Forwarding := ForwardingNone\<rparr> else b)"

text \<open>The code assigns to the fields of its by-value parameter as it goes; every error
  return carries the backend as far as it was normalised.\<close>

definition normalizeBackend :: "backend \<Rightarrow> backend \<times> go_error option" where
  "normalizeBackend b0 =
     (let b = b0\<lparr>b_Name := TrimSpace (b_Name b0), b_Address := TrimSpace (b_Address b0),
                 b_Version := TrimSpace (b_Version b0)\<rparr> in
      if b_Name b = [] then (b, Some (Sentinel ErrBackendNameRequired))
      else if b_Address b = [] then
        (b, Some (Wrapped (Sentinel ErrBackendAddressRequired) [b_Name b]))
      else case check_address b of
        Some e \<Rightarrow> (b, Some e)
      | None \<Rightarrow>
          (let b2 = default_forwarding (default_version b)
           in if b_Forwarding b2 \<in> forwarding_modes then (b2, None)
              else (b2, Some (Wrapped (Sentinel ErrInvalidForwardingMode)
                                [b_Name b2, b_Forwarding b2]))))"

section \<open>Validating the options\<close>

text \<open>The loop over the backends: \<open>seen\<close> is the set of lookup names so far, the result
  is the slice as the loop leaves it (entries before the failing one normalised, the
  others untouched). \<open>validate\<close> writes into the slice the caller passed, so the
  resulting \<open>o_Backends\<close> is also what the caller's slice holds afterwards.\<close>

fun validate_backends :: "string set \<Rightarrow> backend list \<Rightarrow> backend list \<times> go_error option" where
  "validate_backends seen [] = ([], None)"
| "validate_backends seen (b0 # bs) =
     (case normalizeBackend b0 of
        (_, Some e) \<Rightarrow> (b0 # bs, Some e)
      | (b, None) \<Rightarrow>
          if b_Name b = [] then (b # bs, Some (Sentinel ErrBackendNameRequired))
          else (let key = backendLookupName (b_Name b) in
            if key \<in> seen then (b # bs, Some (Wrapped (Sentinel ErrDuplicateBackend) [b_Name b]))
            else (case validate_backends (insert key seen) bs of
                    (bs', err) \<Rightarrow> (b # bs', err))))"

text \<open>The fields that are defaulted before the backends are looked at.\<close>

definition default_options :: "options \<Rightarrow> options" where
  "default_options o0 =
     (let o1 = (if o_GateProtocol o0 = [] then o0\<lparr>o_GateProtocol := auto_version\<rparr> else o0);
          o2 = (if o_Bind o1 = [] then o1\<lparr>o_Bind := default_bind\<rparr> else o1);
          o3 = (if o_Logger o2 = None then o2\<lparr>o_Logger := Some default_logger\<rparr> else o2);
          o4 = (if o_RestartPolicy o3 = None
                then o3\<lparr>o_RestartPolicy :=
                       Some \<lparr>MinBackoff = Second, MaxBackoff = Minute, MaxRetries = 0\<rparr>\<rparr>
                else o3)
      in if o_ShutdownTimeout o4 = 0 then o4\<lparr>o_ShutdownTimeout := 30 * Second\<rparr> else o4)"

definition validate :: "options \<Rightarrow> options \<times> go_error option" where
  "validate o0 =
     (if o_Mode o0 \<notin> {ModeEmbedded, ModeSubprocess} then
        (o0, Some (Wrapped (Sentinel ErrInvalidMode) [FormatInt (o_Mode o0)]))
      else
        (let o5 = default_options o0
         in if o_Backends o5 = [] then
              (if o_AllowDynamicBackends o5 then (o5, None)
               else (o5, Some (Sentinel ErrBackendRequired)))
            else (case validate_backends {} (o_Backends o5) of
                    (bs, err) \<Rightarrow> (o5\<lparr>o_Backends := bs\<rparr>, err))))"

text \<open>\<^verbatim>\<open>resolutionLogger\<close> of \<^verbatim>\<open>log.go\<close>.\<close>

definition resolutionLogger :: "options \<Rightarrow> nat" where
  "resolutionLogger opts = (case o_Logger opts of Some l \<Rightarrow> l | None \<Rightarrow> default_logger)"

section \<open>What the rest of the program relies on\<close>

text \<open>The specification of an acceptable backend, in terms of its fields only, and of
  acceptable options.\<close>

definition valid_endpoint :: "string \<Rightarrow> bool" where
  "valid_endpoint a =
     (case SplitHostPort a of Inl _ \<Rightarrow> False
      | Inr (host, port) \<Rightarrow>
          TrimSpace host \<noteq> [] \<and> (\<forall>c \<in> set host. c \<notin> set host_blanks)
          \<and> (case Atoi port of None \<Rightarrow> False | Some n \<Rightarrow> 1 \<le> n \<and> n \<le> 65535))"

definition wf_backend :: "backend \<Rightarrow> bool" where
  "wf_backend b \<longleftrightarrow>
     b_Name b \<noteq> [] \<and> TrimSpace (b_Name b) = b_Name b
     \<and> TrimSpace (b_Address b) = b_Address b \<and> valid_endpoint (b_Address b)
     \<and> b_Version b \<noteq> [] \<and> TrimSpace (b_Version b) = b_Version b
     \<and> (EqualFold (b_Version b) auto_version \<longrightarrow> b_Version b = auto_version \<and> b_Detect b)
     \<and> b_Forwarding b \<in> forwarding_modes"

definition lookup_names :: "backend list \<Rightarrow> string list" where
  "lookup_names bs = map (\<lambda>b. backendLookupName (b_Name b)) bs"

definition wf_options :: "options \<Rightarrow> bool" where
  "wf_options opts \<longleftrightarrow>
     o_Mode opts \<in> {ModeEmbedded, ModeSubprocess}
     \<and> o_GateProtocol opts \<noteq> [] \<and> o_Bind opts \<noteq> [] \<and> o_Logger opts \<noteq> None
     \<and> o_RestartPolicy opts \<noteq> None \<and> o_ShutdownTimeout opts \<noteq> 0
     \<and> (o_Backends opts = [] \<longrightarrow> o_AllowDynamicBackends opts)
     \<and> (\<forall>b \<in> set (o_Backends opts). wf_backend b)
     \<and> distinct (lookup_names (o_Backends opts))"

subsection \<open>Lookup names\<close>

lemma backendLookupName_idem [simp]: "backendLookupName (backendLookupName s) = backendLookupName s"
  by (simp add: backendLookupName_def TrimSpace_ToLower)

lemma backendLookupName_Trim [simp]: "backendLookupName (TrimSpace s) = backendLookupName s"
  by (simp add: backendLookupName_def)

lemma ToLower_nil_iff [simp]: "ToLower s = [] \<longleftrightarrow> s = []"
  by (simp add: ToLower_def)

text \<open>A trimmed name that is the lookup name of some backend is its own lookup name: an
  alias under the spelled name can only collide with the same backend.\<close>

lemma lookup_alias_collision:
  assumes "n = backendLookupName m"
  shows "backendLookupName n = backendLookupName m"
  using assms by simp

subsection \<open>Normalisation\<close>

lemma auto_version_simps [simp]:
  shows "auto_version \<noteq> []" and "TrimSpace auto_version = auto_version"
  by (simp_all add: auto_version_def TrimSpace_def is_space_def)

lemma ForwardingNone_simps [simp]: "ForwardingNone \<in> forwarding_modes" "[] \<notin> forwarding_modes"
  by (simp_all add: forwarding_modes_def ForwardingNone_def ForwardingLegacy_def
        ForwardingVelocity_def)

lemma check_address_None [simp]: "check_address b = None \<longleftrightarrow> valid_endpoint (b_Address b)"
  by (auto simp: check_address_def valid_endpoint_def ContainsAny_def split: sum.splits option.splits)

lemma check_address_SomeD: "check_address b = Some e \<Longrightarrow> \<not> valid_endpoint (b_Address b)"
  using check_address_None [of b] by simp

lemma valid_endpoint_nonempty: "valid_endpoint a \<Longrightarrow> a \<noteq> []"
  by (auto simp: valid_endpoint_def SplitHostPort_def last_index_of_def)

lemma default_version_fields [simp]:
  "b_Name (default_version b) = b_Name b" "b_Address (default_version b) = b_Address b"
  "b_Forwarding (default_version b) = b_Forwarding b"
  by (simp_all add: default_version_def)

lemma default_forwarding_fields [simp]:
  "b_Name (default_forwarding b) = b_Name b" "b_Address (default_forwarding b) = b_Address b"
  "b_Version (default_forwarding b) = b_Version b" "b_Detect (default_forwarding b) = b_Detect b"
  "b_Forwarding (default_forwarding b) =
     (if b_Forwarding b = [] then ForwardingNone else b_Forwarding b)"
  by (simp_all add: default_forwarding_def)

lemma default_version_ok:
  assumes "TrimSpace (b_Version b) = b_Version b"
  defines "v \<equiv> b_Version (default_version b)"
  shows "v \<noteq> [] \<and> TrimSpace v = v \<and>
    (EqualFold v auto_version \<longrightarrow> v = auto_version \<and> b_Detect (default_version b))"
  using assms by (simp add: default_version_def)

lemma normalizeBackend_ok_wf:
  assumes "normalizeBackend b0 = (b, None)"
  shows "wf_backend b"
proof -
  define c where "c = b0\<lparr>b_Name := TrimSpace (b_Name b0), b_Address := TrimSpace (b_Address b0),
      b_Version := TrimSpace (b_Version b0)\<rparr>"
  have c: "TrimSpace (b_Name c) = b_Name c" "TrimSpace (b_Address c) = b_Address c"
    "TrimSpace (b_Version c) = b_Version c" by (simp_all add: c_def)
  have "b = default_forwarding (default_version c)" "b_Name c \<noteq> []"
    "valid_endpoint (b_Address c)" "b_Forwarding b \<in> forwarding_modes"
    using assms unfolding normalizeBackend_def c_def [symmetric]
    by (auto simp: Let_def split: if_splits option.splits)
  with c default_version_ok [OF c(3)] show ?thesis by (simp add: wf_backend_def)
qed

lemma normalizeBackend_name:
  "normalizeBackend b0 = (b, e) \<Longrightarrow> b_Name b = TrimSpace (b_Name b0)"
  by (auto simp: normalizeBackend_def Let_def split: if_splits option.splits)

lemma wf_normalizeBackend:
  assumes "wf_backend b"
  shows "normalizeBackend b = (b, None)"
proof -
  have "b\<lparr>b_Name := TrimSpace (b_Name b), b_Address := TrimSpace (b_Address b),
      b_Version := TrimSpace (b_Version b)\<rparr> = b"
    using assms by (cases b) (simp add: wf_backend_def)
  moreover have "default_version b = b" "default_forwarding b = b"
    using assms by (cases b; auto simp: wf_backend_def default_version_def default_forwarding_def)+
  ultimately show ?thesis
    using assms by (auto simp: normalizeBackend_def wf_backend_def Let_def
          dest: valid_endpoint_nonempty split: option.splits)
qed

text \<open>The trimmed form of a backend decides whether it is accepted.\<close>

definition acceptable_backend :: "backend \<Rightarrow> bool" where
  "acceptable_backend b \<longleftrightarrow>
     TrimSpace (b_Name b) \<noteq> [] \<and> valid_endpoint (TrimSpace (b_Address b))
     \<and> (b_Forwarding b = [] \<or> b_Forwarding b \<in> forwarding_modes)"

lemma normalizeBackend_accepts_iff:
  "snd (normalizeBackend b) = None \<longleftrightarrow> acceptable_backend b"
  by (auto simp: normalizeBackend_def acceptable_backend_def Let_def
        dest!: check_address_SomeD dest: valid_endpoint_nonempty split: option.splits)

lemma wf_acceptable: "wf_backend b \<Longrightarrow> acceptable_backend b"
  using wf_normalizeBackend normalizeBackend_accepts_iff by fastforce

subsection \<open>The loop over the backends\<close>

lemma lookup_names_simps [simp]:
  "lookup_names [] = []"
  "lookup_names (b # bs) = backendLookupName (b_Name b) # lookup_names bs"
  by (simp_all add: lookup_names_def)

lemma validate_backends_ok:
  "validate_backends seen bs = (bs', None) \<Longrightarrow>
     (\<forall>b \<in> set bs'. wf_backend b) \<and> distinct (lookup_names bs')
     \<and> set (lookup_names bs') \<inter> seen = {} \<and> lookup_names bs' = lookup_names bs"
proof (induction seen bs arbitrary: bs' rule: validate_backends.induct)
  case (1 seen)
  then show ?case by simp
next
  case (2 seen b0 bs)
  from "2.prems" obtain b cs where b: "normalizeBackend b0 = (b, None)" "b_Name b \<noteq> []"
      "backendLookupName (b_Name b) \<notin> seen"
      "validate_backends (insert (backendLookupName (b_Name b)) seen) bs = (cs, None)"
      "bs' = b # cs"
    by (auto simp: Let_def split: prod.splits option.splits if_splits)
  from "2.IH" [OF b(1) [symmetric] refl b(2) refl b(3,4)] b normalizeBackend_ok_wf [OF b(1)]
    normalizeBackend_name [OF b(1)]
  show ?case by auto
qed

lemma validate_backends_accepts_iff:
  "snd (validate_backends seen bs) = None \<longleftrightarrow>
     (\<forall>b \<in> set bs. acceptable_backend b) \<and> distinct (lookup_names bs)
     \<and> set (lookup_names bs) \<inter> seen = {}"
proof (induction bs arbitrary: seen)
  case Nil
  then show ?case by simp
next
  case (Cons b0 bs)
  obtain b e where b: "normalizeBackend b0 = (b, e)" by fastforce
  then have name: "b_Name b = TrimSpace (b_Name b0)" by (rule normalizeBackend_name)
  have acc: "acceptable_backend b0 \<longleftrightarrow> e = None"
    using normalizeBackend_accepts_iff [of b0] b by simp
  show ?case
  proof (cases e)
    case (Some x)
    with b acc show ?thesis by simp
  next
    case None
    with acc have "b_Name b \<noteq> []" by (simp add: acceptable_backend_def name)
    obtain cs x where rec: "validate_backends (insert (backendLookupName (b_Name b)) seen) bs = (cs, x)"
      by fastforce
    with Cons.IH [of "insert (backendLookupName (b_Name b)) seen"]
    show ?thesis using None b acc name \<open>b_Name b \<noteq> []\<close> by (auto simp: Let_def)
  qed
qed

lemma validate_backends_wf:
  "(\<forall>b \<in> set bs. wf_backend b) \<Longrightarrow> distinct (lookup_names bs) \<Longrightarrow>
   set (lookup_names bs) \<inter> seen = {} \<Longrightarrow> validate_backends seen bs = (bs, None)"
proof (induction bs arbitrary: seen)
  case Nil
  then show ?case by simp
next
  case (Cons b bs)
  then have "b_Name b \<noteq> []" by (simp add: wf_backend_def)
  with Cons show ?case by (auto simp: wf_normalizeBackend Let_def)
qed

text \<open>The first backend that does not normalise decides the error, and the slice is left
  with exactly the entries before it normalised.\<close>

lemma validate_backends_first_error:
  assumes "\<forall>b \<in> set pre. acceptable_backend b" and "distinct (lookup_names pre)"
    and "set (lookup_names pre) \<inter> seen = {}" and "snd (normalizeBackend b) = Some e"
  shows "validate_backends seen (pre @ b # post) =
    (map (\<lambda>b. fst (normalizeBackend b)) pre @ b # post, Some e)"
  using assms
proof (induction pre arbitrary: seen)
  case Nil
  then show ?case by (cases "normalizeBackend b") auto
next
  case (Cons c pre)
  obtain c' where c: "normalizeBackend c = (c', None)"
    using Cons.prems(1) normalizeBackend_accepts_iff [of c] by (cases "normalizeBackend c") auto
  have "b_Name c' = TrimSpace (b_Name c)" using c by (rule normalizeBackend_name)
  moreover have "b_Name c' \<noteq> []" using normalizeBackend_ok_wf [OF c] by (simp add: wf_backend_def)
  ultimately show ?case using Cons c by (auto simp: Let_def)
qed

subsection \<open>The whole of the options\<close>

lemma durations_nonzero [simp]: "30 * Second \<noteq> 0" "default_bind \<noteq> []"
  by (simp_all add: Second_def default_bind_def)

lemma default_options_frame [simp]:
  "o_Mode (default_options opts) = o_Mode opts"
  "o_LibraryPath (default_options opts) = o_LibraryPath opts"
  "o_BinaryPath (default_options opts) = o_BinaryPath opts"
  "o_Version (default_options opts) = o_Version opts"
  "o_Mirror (default_options opts) = o_Mirror opts"
  "o_Offline (default_options opts) = o_Offline opts"
  "o_AllowDynamicBackends (default_options opts) = o_AllowDynamicBackends opts"
  "o_Backends (default_options opts) = o_Backends opts"
  "o_ReserveHook (default_options opts) = o_ReserveHook opts"
  by (simp_all add: default_options_def Let_def)

lemma default_options_set [simp]:
  "o_GateProtocol (default_options opts) \<noteq> []" "o_Bind (default_options opts) \<noteq> []"
  "o_Logger (default_options opts) \<noteq> None" "o_RestartPolicy (default_options opts) \<noteq> None"
  "o_ShutdownTimeout (default_options opts) \<noteq> 0"
  by (simp_all add: default_options_def Let_def)

lemma default_options_id:
  "o_GateProtocol opts \<noteq> [] \<Longrightarrow> o_Bind opts \<noteq> [] \<Longrightarrow> o_Logger opts \<noteq> None \<Longrightarrow>
   o_RestartPolicy opts \<noteq> None \<Longrightarrow> o_ShutdownTimeout opts \<noteq> 0 \<Longrightarrow> default_options opts = opts"
  by (auto simp: default_options_def)

lemma validate_frame:
  "validate opts = (opts', err) \<Longrightarrow>
     o_Mode opts' = o_Mode opts \<and> o_LibraryPath opts' = o_LibraryPath opts
     \<and> o_BinaryPath opts' = o_BinaryPath opts \<and> o_Version opts' = o_Version opts
     \<and> o_Mirror opts' = o_Mirror opts \<and> o_Offline opts' = o_Offline opts
     \<and> o_AllowDynamicBackends opts' = o_AllowDynamicBackends opts
     \<and> o_ReserveHook opts' = o_ReserveHook opts"
  by (auto simp: validate_def Let_def split: if_splits prod.splits)

lemma validate_okE:
  assumes "validate opts = (opts', None)"
  obtains (empty) "o_Backends opts = []" "o_AllowDynamicBackends opts"
      "opts' = default_options opts" "o_Mode opts \<in> {ModeEmbedded, ModeSubprocess}"
    | (some) bs where "o_Backends opts \<noteq> []" "validate_backends {} (o_Backends opts) = (bs, None)"
      "opts' = (default_options opts)\<lparr>o_Backends := bs\<rparr>"
      "o_Mode opts \<in> {ModeEmbedded, ModeSubprocess}"
  using assms by (auto simp: validate_def Let_def split: if_splits prod.splits)

lemma validate_ok_wf:
  assumes "validate opts = (opts', None)"
  shows "wf_options opts'"
  using assms
proof (cases rule: validate_okE)
  case empty
  then show ?thesis by (simp add: wf_options_def)
next
  case (some bs)
  note ok = validate_backends_ok [OF some(2)]
  then have "bs \<noteq> []" using some(1) by (auto simp: lookup_names_def)
  with ok some show ?thesis by (auto simp: wf_options_def)
qed

lemma validate_accepts_iff:
  "snd (validate opts) = None \<longleftrightarrow>
     o_Mode opts \<in> {ModeEmbedded, ModeSubprocess}
     \<and> (o_Backends opts = [] \<longrightarrow> o_AllowDynamicBackends opts)
     \<and> (\<forall>b \<in> set (o_Backends opts). acceptable_backend b)
     \<and> distinct (lookup_names (o_Backends opts))"
  using validate_backends_accepts_iff [of "{}" "o_Backends opts"]
  by (auto simp: validate_def Let_def split: prod.splits)

lemma wf_validate:
  assumes "wf_options opts"
  shows "validate opts = (opts, None)"
proof -
  have "default_options opts = opts"
    using assms by (intro default_options_id) (simp_all add: wf_options_def)
  then show ?thesis
    using assms by (auto simp: validate_def wf_options_def Let_def validate_backends_wf)
qed


section \<open>The properties\<close>

text \<open>C30: \<open>validate\<close> accepts exactly the options with a known mode, at least one backend or
  permission to start without, backends that are acceptable each by itself and no two
  backends with the same name up to case and surrounding space.\<close>

theorem validate_accepts_exactly:
  "snd (validate opts) = None \<longleftrightarrow>
     o_Mode opts \<in> {ModeEmbedded, ModeSubprocess} \<and> (o_Backends opts = [] \<longrightarrow> o_AllowDynamicBackends opts)
     \<and> list_all acceptable_backend (o_Backends opts) \<and> distinct (lookup_names (o_Backends opts))"
  unfolding list_all_iff by (rule validate_accepts_iff)

text \<open>C31: What \<open>validate\<close> returns without an error is well-formed (every field that has a
  default is set, every backend is normalised, every forwarding mode known, every port in
  range, all lookup names distinct) and is a fixed point: validating it again changes
  nothing.\<close>

theorem validated_options_are_normal:
  assumes "validate opts = (opts', None)"
  shows "wf_options opts' \<and> validate opts' = (opts', None)"
  using validate_ok_wf [OF assms] wf_validate by blast

text \<open>The first backend that does not normalise decides the error, and the slice the
  caller passed is left with exactly the backends before it normalised in place.\<close>

lemma first_bad_backend_decides:
  assumes "o_Mode opts \<in> {ModeEmbedded, ModeSubprocess}" and "o_Backends opts = pre @ b # post"
    and "list_all acceptable_backend pre" and "distinct (lookup_names pre)"
    and "snd (normalizeBackend b) = Some e"
  shows "snd (validate opts) = Some e
    \<and> o_Backends (fst (validate opts)) = map (\<lambda>b. fst (normalizeBackend b)) pre @ b # post"
  using validate_backends_first_error [of pre "{}" b e post] assms
  by (simp add: validate_def Let_def list_all_iff)

definition sample_backend :: "string \<Rightarrow> string \<Rightarrow> backend" where
  "sample_backend name address = \<lparr>b_Name = name, b_Address = address, b_Version = [], b_Detect = False,
     b_Forwarding = []\<rparr>"

definition sample_options :: "backend list \<Rightarrow> options" where
  "sample_options bs = \<lparr>o_Mode = ModeSubprocess, o_GateProtocol = [], o_Bind = [], o_LibraryPath = [],
     o_BinaryPath = [], o_Version = [], o_Mirror = [], o_Offline = False, o_Logger = None,
     o_RestartPolicy = None, o_ShutdownTimeout = 0, o_AllowDynamicBackends = False, o_Backends = bs,
     o_ReserveHook = False\<rparr>"

lemma sample_ok: "acceptable_backend (sample_backend '' Lobby '' ''10.0.0.1:25565'')"
  by code_simp

lemma sample_bad: "snd (normalizeBackend (sample_backend ''pvp'' ''10.0.0.2:0''))
    = Some (Wrapped (Sentinel ErrInvalidBackendAddress) [''pvp'', ''0''])"
  by code_simp

lemma sample_simps:
  "o_Mode (sample_options bs) = ModeSubprocess" "o_Backends (sample_options bs) = bs"
  by (simp_all add: sample_options_def)

lemma validate_accepts_exactly_witness:
  "snd (validate (sample_options [sample_backend '' Lobby '' ''10.0.0.1:25565''])) = None"
  using validate_accepts_exactly [of "sample_options [sample_backend '' Lobby '' ''10.0.0.1:25565'']"] sample_ok
  by (simp only: sample_simps) simp

lemma validated_options_are_normal_witness:
  "wf_options (fst (validate (sample_options [sample_backend '' Lobby '' ''10.0.0.1:25565''])))"
proof -
  let ?o = "sample_options [sample_backend '' Lobby '' ''10.0.0.1:25565'']"
  have "snd (validate ?o) = None"
    using validate_accepts_iff [of ?o] sample_ok by (simp only: sample_simps) simp
  then have "validate ?o = (fst (validate ?o), None)" by (metis prod.collapse)
  from validated_options_are_normal [OF this] show ?thesis by blast
qed

lemma first_bad_backend_decides_witness:
  "snd (validate (sample_options [sample_backend '' Lobby '' ''10.0.0.1:25565'', sample_backend ''pvp'' ''10.0.0.2:0'']))
    = Some (Wrapped (Sentinel ErrInvalidBackendAddress) [''pvp'', ''0''])"
  by (rule conjunct1, rule first_bad_backend_decides [OF _ _ _ _ sample_bad,
      where pre = "[sample_backend '' Lobby '' ''10.0.0.1:25565'']" and post = "[]"])
    (simp_all add: sample_simps sample_ok)

end
