(* ===== verification/ConfigJson.thy ===== *)
theory ConfigJson
  imports Options
begin

text \<open>
  The configuration handed to the native runtime (\<^verbatim>\<open>config.go\<close>):
  \<open>nativeConfigJSONWithBackendBinds\<close> and \<open>nativeBackendConfigJSON\<close>, down to the text
  \<^verbatim>\<open>json.Marshal\<close> writes for the two structs (field order, \<^verbatim>\<open>omitempty\<close> of
  the bind, string escapes with the HTML characters escaped too). Marshalling these
  structs cannot fail, they hold strings and booleans only. Bytes beyond ASCII are written
  as they are; Go does so for valid UTF-8 without the two line separators U+2028 and U+2029.

  \<open>read_config\<close> is a reader for the grammar of that text, the contract the runtime relies
  on: it gives back every field.
\<close>

section \<open>The structs\<close>

record native_backend =
  n_Name :: string
  n_Address :: string
  n_Bind :: string
  n_Version :: string
  n_Detect :: bool
  n_Forwarding :: string

record native_config =
  n_CfgBind :: string
  n_GateProtocol :: string
  n_Backends :: "native_backend list"

text \<open>Indexing a Go map at an absent key gives the zero value.\<close>

definition map_index :: "(string \<rightharpoonup> string) \<Rightarrow> string \<Rightarrow> string" where
  "map_index m k = (case m k of None \<Rightarrow> [] | Some v \<Rightarrow> v)"

definition to_native :: "backend \<Rightarrow> string \<Rightarrow> native_backend" where
  "to_native b bind =
     \<lparr>n_Name = b_Name b, n_Address = b_Address b, n_Bind = bind, n_Version = b_Version b,
      n_Detect = b_Detect b, n_Forwarding = b_Forwarding b\<rparr>"

definition backend_bind :: "(string \<rightharpoonup> string) \<Rightarrow> backend \<Rightarrow> string" where
  "backend_bind binds b =
     (let bind = map_index binds (b_Name b) in
      if bind = [] then map_index binds (backendLookupName (b_Name b)) else bind)"

definition native_config_of :: "options \<Rightarrow> (string \<rightharpoonup> string) \<Rightarrow> native_config" where
  "native_config_of opts binds =
     \<lparr>n_CfgBind = o_Bind opts, n_GateProtocol = o_GateProtocol opts,
      n_Backends = map (\<lambda>b. to_native b (backend_bind binds b)) (o_Backends opts)\<rparr>"

section \<open>Marshalling\<close>

definition quote :: char where "quote = CHR 0x22"
definition backslash :: char where "backslash = CHR 0x5C"

definition escape_char :: "char \<Rightarrow> string" where
  "escape_char c =
     (let n = (of_char c :: nat) in
      if c = quote \<or> c = backslash then [backslash, c]
      else if n = 8 then [backslash, CHR ''b'']
      else if n = 12 then [backslash, CHR ''f'']
      else if n = 10 then [backslash, CHR ''n'']
      else if n = 13 then [backslash, CHR ''r'']
      else if n = 9 then [backslash, CHR ''t'']
      else if n < 32 \<or> c = CHR ''<'' \<or> c = CHR ''>'' \<or> c = CHR ''&''
      then [backslash, CHR ''u'', CHR ''0'', CHR ''0'', digit_char (n div 16), digit_char (n mod 16)]
      else [c])"

definition json_string :: "string \<Rightarrow> string" where
  "json_string s = quote # concat (map escape_char s) @ [quote]"

definition json_bool :: "bool \<Rightarrow> string" where
  "json_bool b = (if b then ''true'' else ''false'')"

definition json_key :: "string \<Rightarrow> string" where
  "json_key k = json_string k @ '':''"

definition marshal_backend :: "native_backend \<Rightarrow> string" where
  "marshal_backend nb =
     ''{'' @ json_key ''name'' @ json_string (n_Name nb)
     @ '','' @ json_key ''address'' @ json_string (n_Address nb)
     @ (if n_Bind nb = [] then [] else '','' @ json_key ''bind'' @ json_string (n_Bind nb))
     @ '','' @ json_key ''version'' @ json_string (n_Version nb)
     @ '','' @ json_key ''detect'' @ json_bool (n_Detect nb)
     @ '','' @ json_key ''forwarding'' @ json_string (n_Forwarding nb) @ ''}''"

fun marshal_list :: "native_backend list \<Rightarrow> string" where
  "marshal_list [] = []"
| "marshal_list [b] = marshal_backend b"
| "marshal_list (b # bs) = marshal_backend b @ '','' @ marshal_list bs"

definition marshal_config :: "native_config \<Rightarrow> string" where
  "marshal_config cfg =
     ''{'' @ json_key ''bind'' @ json_string (n_CfgBind cfg)
     @ '','' @ json_key ''gate_protocol'' @ json_string (n_GateProtocol cfg)
     @ '','' @ json_key ''backends'' @ ''['' @ marshal_list (n_Backends cfg) @ '']'' @ ''}''"

definition nativeConfigJSONWithBackendBinds ::
  "options \<Rightarrow> (string \<rightharpoonup> string) \<Rightarrow> (go_error, string) result" where
  "nativeConfigJSONWithBackendBinds opts binds = Inr (marshal_config (native_config_of opts binds))"

definition nativeConfigJSON :: "options \<Rightarrow> (go_error, string) result" where
  "nativeConfigJSON opts = nativeConfigJSONWithBackendBinds opts Map.empty"

definition nativeBackendConfigJSON :: "backend \<Rightarrow> string \<Rightarrow> (go_error, string) result" where
  "nativeBackendConfigJSON b bind = Inr (marshal_backend (to_native b bind))"

section \<open>Reading it back\<close>

definition hex_val :: "char \<Rightarrow> nat option" where
  "hex_val c = (case digit_val c of None \<Rightarrow> None | Some d \<Rightarrow> if d < 16 then Some d else None)"

definition unescape_simple :: "char \<Rightarrow> char option" where
  "unescape_simple e =
     (if e = quote \<or> e = backslash \<or> e = CHR ''/'' then Some e
      else if e = CHR ''b'' then Some (char_of (8::nat))
      else if e = CHR ''f'' then Some (char_of (12::nat))
      else if e = CHR ''n'' then Some (char_of (10::nat))
      else if e = CHR ''r'' then Some (char_of (13::nat))
      else if e = CHR ''t'' then Some (char_of (9::nat))
      else None)"

text \<open>The characters of a string up to its closing quote, and the text after it. Only the
  escapes of code points below 256 are needed.\<close>

fun read_chars :: "string \<Rightarrow> (string \<times> string) option" where
  "read_chars [] = None"
| "read_chars (c # cs) =
     (if c = quote then Some ([], cs)
      else if c = backslash then
        (case cs of
           [] \<Rightarrow> None
         | e # r \<Rightarrow>
             if e = CHR ''u'' then
               (case r of
                  z1 # z2 # h # l # r1 \<Rightarrow>
                    (case (hex_val z1, hex_val z2, hex_val h, hex_val l) of
                       (Some 0, Some 0, Some x, Some y) \<Rightarrow>
                         map_option (\<lambda>(s, t). (char_of (16 * x + y) # s, t)) (read_chars r1)
                     | _ \<Rightarrow> None)
                | _ \<Rightarrow> None)
             else (case unescape_simple e of
                     None \<Rightarrow> None
                   | Some d \<Rightarrow> map_option (\<lambda>(s, t). (d # s, t)) (read_chars r)))
      else map_option (\<lambda>(s, t). (c # s, t)) (read_chars cs))"

definition read_string :: "string \<Rightarrow> (string \<times> string) option" where
  "read_string s = (case s of [] \<Rightarrow> None | c # cs \<Rightarrow> if c = quote then read_chars cs else None)"

definition expect :: "string \<Rightarrow> string \<Rightarrow> string option" where
  "expect p s = (if HasPrefix s p then Some (drop (length p) s) else None)"

definition read_bool :: "string \<Rightarrow> (bool \<times> string) option" where
  "read_bool s =
     (case expect ''true'' s of
        Some r \<Rightarrow> Some (True, r)
      | None \<Rightarrow> (case expect ''false'' s of Some r \<Rightarrow> Some (False, r) | None \<Rightarrow> None))"

text \<open>A field: its key, preceded by \<open>sep\<close>, and a string value.\<close>

definition read_field :: "string \<Rightarrow> string \<Rightarrow> string \<Rightarrow> (string \<times> string) option" where
  "read_field sep k s = Option.bind (expect (sep @ json_key k) s) read_string"

definition read_optional :: "string \<Rightarrow> string \<Rightarrow> string \<Rightarrow> (string \<times> string) option" where
  "read_optional sep k s =
     (case expect (sep @ json_key k) s of None \<Rightarrow> Some ([], s) | Some r \<Rightarrow> read_string r)"

definition read_backend :: "string \<Rightarrow> (native_backend \<times> string) option" where
  "read_backend s0 =
     Option.bind (read_field ''{'' ''name'' s0) (\<lambda>(name, s1).
     Option.bind (read_field '','' ''address'' s1) (\<lambda>(address, s2).
     Option.bind (read_optional '','' ''bind'' s2) (\<lambda>(bnd, s3).
     Option.bind (read_field '','' ''version'' s3) (\<lambda>(version, s4).
     Option.bind (expect ('','' @ json_key ''detect'') s4) (\<lambda>s5.
     Option.bind (read_bool s5) (\<lambda>(detect, s6).
     Option.bind (read_field '','' ''forwarding'' s6) (\<lambda>(fwd, s7).
     Option.bind (expect ''}'' s7) (\<lambda>s8.
       Some (\<lparr>n_Name = name, n_Address = address, n_Bind = bnd, n_Version = version,
              n_Detect = detect, n_Forwarding = fwd\<rparr>, s8)))))))))"

text \<open>The elements of the array up to its closing bracket; the fuel bounds their number.\<close>

fun read_more :: "nat \<Rightarrow> string \<Rightarrow> (native_backend list \<times> string) option" where
  "read_more 0 s = None"
| "read_more (Suc n) s =
     (case expect '']'' s of
        Some r \<Rightarrow> Some ([], r)
      | None \<Rightarrow>
          Option.bind (expect '','' s) (\<lambda>s1.
          Option.bind (read_backend s1) (\<lambda>(b, s2).
          Option.bind (read_more n s2) (\<lambda>(bs, s3). Some (b # bs, s3)))))"

definition read_list :: "nat \<Rightarrow> string \<Rightarrow> (native_backend list \<times> string) option" where
  "read_list n s =
     (case expect '']'' s of
        Some r \<Rightarrow> Some ([], r)
      | None \<Rightarrow> Option.bind (read_backend s) (\<lambda>(b, s1).
                Option.bind (read_more n s1) (\<lambda>(bs, s2). Some (b # bs, s2))))"

definition read_config :: "string \<Rightarrow> native_config option" where
  "read_config s0 =
     Option.bind (read_field ''{'' ''bind'' s0) (\<lambda>(bnd, s1).
     Option.bind (read_field '','' ''gate_protocol'' s1) (\<lambda>(proto, s2).
     Option.bind (expect ('','' @ json_key ''backends'' @ ''['') s2) (\<lambda>s3.
     Option.bind (read_list (length s0) s3) (\<lambda>(bs, s4).
       if s4 = ''}'' then Some \<lparr>n_CfgBind = bnd, n_GateProtocol = proto, n_Backends = bs\<rparr> else None))))"

section \<open>The round trip\<close>

lemma expect_append [simp]: "expect p (p @ s) = Some s"
  by (simp add: expect_def)

lemma expect_append2 [simp]: "expect (p @ q) (p @ q @ s) = Some s"
  using expect_append [of "p @ q" s] by (simp del: expect_append)

lemma hex_val_digit_char: "d < 16 \<Longrightarrow> hex_val (digit_char d) = Some d"
proof -
  assume "d < 16"
  then have "d \<in> {0, 1, 2, 3, 4, 5, 6, 7, 8, 9, 10, 11, 12, 13, 14, 15}" by simp arith
  then show ?thesis by (auto simp: hex_val_def digit_val_def digit_char_def)
qed

lemma hex_val_zero [simp]: "hex_val (CHR ''0'') = Some 0"
  by code_simp

lemma escape_char_neq [simp]: "quote \<noteq> backslash" "backslash \<noteq> quote" "backslash \<noteq> CHR ''u''"
  by (simp_all add: quote_def backslash_def)

lemma read_escape:
  "read_chars (escape_char c @ r) = map_option (\<lambda>(s, t). (c # s, t)) (read_chars r)"
proof -
  let ?n = "of_char c :: nat"
  have hl: "?n div 16 < 16" "?n mod 16 < 16" using nat_of_char_less_256 [of c] by (simp_all add: less_mult_imp_div_less)
  have bk: "char_of (16 * (?n div 16) + ?n mod 16) = c" by simp
  consider (self) "c = quote \<or> c = backslash" | (simple) "?n \<in> {8, 12, 10, 13, 9}"
    | (hex) "\<not> (c = quote \<or> c = backslash)" "?n \<notin> {8, 12, 10, 13, 9}"
        "?n < 32 \<or> c = CHR ''<'' \<or> c = CHR ''>'' \<or> c = CHR ''&''"
    | (plain) "\<not> (c = quote \<or> c = backslash)" "?n \<notin> {8, 12, 10, 13, 9}"
        "\<not> (?n < 32 \<or> c = CHR ''<'' \<or> c = CHR ''>'' \<or> c = CHR ''&'')"
    by blast
  then show ?thesis
  proof cases
    case self
    then show ?thesis by (auto simp: escape_char_def unescape_simple_def quote_def backslash_def)
  next
    case simple
    have c: "c = char_of ?n" by simp
    from simple show ?thesis
      by (auto simp: escape_char_def unescape_simple_def Let_def quote_def backslash_def)
        (metis char_of_char)+
  next
    case hex
    then have "escape_char c =
        [backslash, CHR ''u'', CHR ''0'', CHR ''0'', digit_char (?n div 16), digit_char (?n mod 16)]"
      by (simp add: escape_char_def Let_def)
    then show ?thesis using bk by (simp add: hex_val_digit_char hl)
  next
    case plain
    then have "escape_char c = [c]" by (simp add: escape_char_def Let_def)
    with plain show ?thesis by simp
  qed
qed

lemma read_string_json [simp]: "read_string (json_string s @ r) = Some (s, r)"
proof -
  have "read_chars (concat (map escape_char s) @ quote # r) = Some (s, r)"
    by (induction s) (simp_all add: read_escape)
  then show ?thesis by (simp add: read_string_def json_string_def)
qed

lemma read_field_append [simp]:
  "read_field sep k (sep @ json_key k @ json_string v @ r) = Some (v, r)"
  by (simp add: read_field_def)

lemma read_field_cons [simp]:
  "read_field [c] k (c # json_key k @ json_string v @ r) = Some (v, r)"
  using read_field_append [of "[c]" k v r] by simp

lemma expect_cons [simp]: "expect [c] (c # r) = Some r" "expect (c # k) (c # k @ r) = Some r"
  by (simp_all add: expect_def HasPrefix_def)

lemma expect_close_comma [simp]: "expect '']'' (CHR '','' # r) = None"
  by (simp add: expect_def HasPrefix_def)

lemma read_bool_json [simp]: "read_bool (json_bool b @ r) = Some (b, r)"
  by (cases b) (simp_all add: read_bool_def json_bool_def expect_def HasPrefix_def)

lemma no_bind_key: "expect ('','' @ json_key ''bind'') ('','' @ json_key ''version'' @ r) = None"
  by (simp add: expect_def HasPrefix_def json_key_def json_string_def escape_char_def quote_def
      backslash_def Let_def)

lemma read_backend_marshal [simp]: "read_backend (marshal_backend nb @ r) = Some (nb, r)"
proof (cases "n_Bind nb = []")
  case True
  have opt: "read_optional '','' ''bind'' ('','' @ json_key ''version'' @ t) = Some ([], '','' @ json_key ''version'' @ t)" for t
    by (simp add: read_optional_def no_bind_key [simplified])
  show ?thesis using True opt [simplified]
    by (cases nb) (simp add: read_backend_def marshal_backend_def)
next
  case False
  have opt: "read_optional '','' ''bind'' ('','' @ json_key ''bind'' @ json_string v @ t) = Some (v, t)" for v t
    by (simp add: read_optional_def)
  show ?thesis using False opt [simplified]
    by (cases nb) (simp add: read_backend_def marshal_backend_def)
qed

lemma marshal_list_Cons:
  "marshal_list (b # bs) = marshal_backend b @ concat (map (\<lambda>b. '','' @ marshal_backend b) bs)"
proof (induction bs arbitrary: b)
  case Nil
  then show ?case by simp
next
  case (Cons c cs)
  then show ?case by simp
qed

lemma read_more_marshal:
  "length bs < n \<Longrightarrow>
   read_more n (concat (map (\<lambda>b. '','' @ marshal_backend b) bs) @ CHR '']'' # r) = Some (bs, r)"
proof (induction n arbitrary: bs)
  case 0
  then show ?case by simp
next
  case (Suc n)
  then show ?case by (cases bs) simp_all
qed

lemma marshal_backend_head: "expect '']'' (marshal_backend b @ r) = None"
  by (simp add: marshal_backend_def expect_def HasPrefix_def)

lemma read_list_marshal:
  "length bs \<le> n \<Longrightarrow> 0 < n \<Longrightarrow> read_list n (marshal_list bs @ CHR '']'' # r) = Some (bs, r)"
proof (cases bs)
  case (Cons b cs)
  moreover assume "length bs \<le> n"
  ultimately show ?thesis
    using read_more_marshal [of cs n r]
    by (simp add: read_list_def marshal_list_Cons marshal_backend_head del: marshal_list.simps)
qed (simp add: read_list_def)

lemma marshal_list_length: "length bs \<le> length (marshal_list bs)"
proof (induction bs rule: marshal_list.induct)
  case (3 b c cs)
  then show ?case by simp
qed (simp_all add: marshal_backend_def)

theorem read_config_marshal: "read_config (marshal_config cfg) = Some cfg"
proof -
  let ?s = "marshal_config cfg"
  have len: "length (n_Backends cfg) \<le> length ?s" "0 < length ?s"
    using marshal_list_length [of "n_Backends cfg"] by (simp_all add: marshal_config_def)
  have "read_list (length ?s) (marshal_list (n_Backends cfg) @ '']}'') = Some (n_Backends cfg, ''}'')"
    using read_list_marshal [OF len, of "''}''"] by simp
  then have rl: "read_list (length ?s) (marshal_list (n_Backends cfg) @ [CHR '']'', CHR ''}'']) = Some (n_Backends cfg, ''}'')"
    by simp
  have "?s = CHR ''{'' # json_key ''bind'' @ json_string (n_CfgBind cfg)
     @ CHR '','' # json_key ''gate_protocol'' @ json_string (n_GateProtocol cfg)
     @ CHR '','' # (json_key ''backends'' @ ''['') @ marshal_list (n_Backends cfg) @ '']}''"
    by (simp add: marshal_config_def)
  then have "read_field ''{'' ''bind'' ?s = Some (n_CfgBind cfg,
      CHR '','' # json_key ''gate_protocol'' @ json_string (n_GateProtocol cfg)
     @ CHR '','' # (json_key ''backends'' @ ''['') @ marshal_list (n_Backends cfg) @ '']}'')"
    by (metis read_field_cons)
  moreover have "expect (CHR '','' # json_key ''backends'' @ ''['')
      (CHR '','' # json_key ''backends'' @ CHR ''['' # r) = Some r" for r
    using expect_append [of "'','' @ json_key ''backends'' @ ''[''" r] by (simp del: expect_append)
  ultimately show ?thesis using rl by (cases cfg) (simp add: read_config_def)
qed


end
