(* ===== verification/Json.thy ===== *)
theory Json
  imports ConfigJson
begin

text \<open>
  \<^verbatim>\<open>json.Unmarshal\<close> as the program uses it: the text is checked and read as one
  JSON value (nesting at most 10000 deep, nothing but white space around it), and the value
  is stored into a struct with one string field (the release metadata) or into a slice of
  strings (the client command of the smoke proxy). Strings are decoded the way Go does,
  with \<^verbatim>\<open>\uXXXX\<close> escapes, surrogate pairs, and the replacement character for lone
  surrogates and for bytes that are not UTF-8.

  The parser recurses on a fuel argument. \<open>jvalue_total\<close> shows that the fuel \<open>parse_json\<close>
  passes is always enough, so that the answer \<open>None\<close> means a syntax error.
\<close>

section \<open>Strings\<close>

text \<open>The contents of a string literal: bytes, and the 16-bit units of its escapes.\<close>

datatype item = IByte char | IUnit nat

definition hex4_val :: "char \<Rightarrow> char \<Rightarrow> char \<Rightarrow> char \<Rightarrow> nat option" where
  "hex4_val a b c d =
     (case (hex_val a, hex_val b, hex_val c, hex_val d) of
        (Some w, Some x, Some y, Some z) \<Rightarrow> Some (((w * 16 + x) * 16 + y) * 16 + z)
      | _ \<Rightarrow> None)"

definition cons_item :: "item \<Rightarrow> (item list \<times> string) option \<Rightarrow> (item list \<times> string) option" where
  "cons_item i = map_option (\<lambda>(is, r). (i # is, r))"

fun literal_items :: "string \<Rightarrow> (item list \<times> string) option" where
  "literal_items [] = None"
| "literal_items (c # cs) =
     (if c = quote then Some ([], cs)
      else if c = backslash then
        (case cs of
           [] \<Rightarrow> None
         | e # r \<Rightarrow>
             if e = CHR ''u'' then
               (case r of
                  h1 # h2 # h3 # h4 # r1 \<Rightarrow>
                    (case hex4_val h1 h2 h3 h4 of
                       None \<Rightarrow> None
                     | Some n \<Rightarrow> cons_item (IUnit n) (literal_items r1))
                | _ \<Rightarrow> None)
             else (case unescape_simple e of
                     None \<Rightarrow> None
                   | Some d \<Rightarrow> cons_item (IByte d) (literal_items r)))
      else if of_char c < (32::nat) then None
      else cons_item (IByte c) (literal_items cs))"

subsection \<open>UTF-8\<close>

definition utf8 :: "nat \<Rightarrow> string" where
  "utf8 n =
     map char_of
       (if n < 128 then [n]
        else if n < 2048 then [192 + n div 64, 128 + n mod 64]
        else if n < 65536 then [224 + n div 4096, 128 + n div 64 mod 64, 128 + n mod 64]
        else [240 + n div 262144, 128 + n div 4096 mod 64, 128 + n div 64 mod 64, 128 + n mod 64])"

definition replacement_char :: string where "replacement_char = utf8 65533"

definition between :: "nat \<Rightarrow> nat \<Rightarrow> nat \<Rightarrow> bool" where
  "between lo hi n \<longleftrightarrow> lo \<le> n \<and> n \<le> hi"

definition continuation :: "nat \<Rightarrow> bool" where
  "continuation = between 128 191"

text \<open>The length of the UTF-8 sequence the bytes start with, 0 when they start with none.\<close>

fun rune_length :: "nat list \<Rightarrow> nat" where
  "rune_length [] = 0"
| "rune_length (b0 # bs) =
     (if b0 < 128 then 1
      else case bs of
        [] \<Rightarrow> 0
      | b1 # cs \<Rightarrow>
          if between 194 223 b0 \<and> continuation b1 then 2
          else case cs of
            [] \<Rightarrow> 0
          | b2 # ds \<Rightarrow>
              if ((b0 = 224 \<and> between 160 191 b1) \<or> (b0 = 237 \<and> between 128 159 b1)
                  \<or> (between 225 239 b0 \<and> b0 \<noteq> 237 \<and> continuation b1)) \<and> continuation b2 then 3
              else case ds of
                [] \<Rightarrow> 0
              | b3 # _ \<Rightarrow>
                  if ((b0 = 240 \<and> between 144 191 b1) \<or> (b0 = 244 \<and> between 128 143 b1)
                      \<or> (between 241 243 b0 \<and> continuation b1)) \<and> continuation b2 \<and> continuation b3
                  then 4 else 0)"

definition is_surrogate :: "nat \<Rightarrow> bool" where
  "is_surrogate u \<longleftrightarrow> between 55296 57343 u"

text \<open>\<^verbatim>\<open>utf16.DecodeRune\<close>: the code point of a high and a low surrogate.\<close>

definition surrogate_pair :: "nat \<Rightarrow> nat \<Rightarrow> nat option" where
  "surrogate_pair u v =
     (if between 55296 56319 u \<and> between 56320 57343 v
      then Some ((u - 55296) * 1024 + (v - 56320) + 65536) else None)"

fun leading_bytes :: "nat \<Rightarrow> item list \<Rightarrow> nat list" where
  "leading_bytes n (IByte c # xs) = (if n = 0 then [] else of_char c # leading_bytes (n - 1) xs)"
| "leading_bytes _ _ = []"

fun unit_of :: "item list \<Rightarrow> nat option" where
  "unit_of (IUnit v # xs) = Some v"
| "unit_of _ = None"

function decode_items :: "item list \<Rightarrow> string" where
  "decode_items [] = []"
| "decode_items (IUnit u # xs) =
     (if is_surrogate u then
        (case Option.bind (unit_of xs) (surrogate_pair u) of
           Some n \<Rightarrow> utf8 n @ decode_items (tl xs)
         | None \<Rightarrow> replacement_char @ decode_items xs)
      else utf8 u @ decode_items xs)"
| "decode_items (IByte c # xs) =
     (let n = rune_length (leading_bytes 4 (IByte c # xs)) in
      if n = 0 then replacement_char @ decode_items xs
      else c # map char_of (leading_bytes (n - 1) xs) @ decode_items (drop (n - 1) xs))"
  by pat_completeness auto
termination by (relation "measure length") auto

text \<open>A string literal from after its opening quote.\<close>

definition jstring :: "string \<Rightarrow> (string \<times> string) option" where
  "jstring s = map_option (\<lambda>(is, r). (decode_items is, r)) (literal_items s)"

section \<open>Values\<close>

datatype json =
    JNull
  | JBool bool
  | JNumber string
  | JString string
  | JArray "json list"
  | JObject "(string \<times> json) list"

definition json_ws :: "char \<Rightarrow> bool" where
  "json_ws c \<longleftrightarrow> c \<in> {CHR '' '', CHR 0x09, CHR 0x0A, CHR 0x0D}"

definition skip_ws :: "string \<Rightarrow> string" where
  "skip_ws = dropWhile json_ws"

definition is_digit :: "char \<Rightarrow> bool" where
  "is_digit c \<longleftrightarrow> (case digit_val c of None \<Rightarrow> False | Some d \<Rightarrow> d < 10)"

text \<open>One or more digits.\<close>

definition skip_digits :: "string \<Rightarrow> string option" where
  "skip_digits s = (if s \<noteq> [] \<and> is_digit (hd s) then Some (dropWhile is_digit s) else None)"

definition skip_fraction :: "string \<Rightarrow> string option" where
  "skip_fraction s = (if s \<noteq> [] \<and> hd s = CHR ''.'' then skip_digits (tl s) else Some s)"

definition skip_exponent :: "string \<Rightarrow> string option" where
  "skip_exponent s =
     (if s \<noteq> [] \<and> (hd s = CHR ''e'' \<or> hd s = CHR ''E'') then
        (case tl s of
           c # r \<Rightarrow> if c = CHR ''+'' \<or> c = CHR ''-'' then skip_digits r else skip_digits (c # r)
         | [] \<Rightarrow> None)
      else Some s)"

definition skip_number :: "string \<Rightarrow> string option" where
  "skip_number s0 =
     (let s = (if s0 \<noteq> [] \<and> hd s0 = CHR ''-'' then tl s0 else s0) in
      Option.bind
        (Option.bind
          (if s \<noteq> [] \<and> hd s = CHR ''0'' then Some (tl s) else skip_digits s)
          skip_fraction)
        skip_exponent)"

definition jnumber :: "string \<Rightarrow> (json \<times> string) option" where
  "jnumber s = map_option (\<lambda>r. (JNumber (take (length s - length r) s), r)) (skip_number s)"

definition jliteral :: "string \<Rightarrow> (json \<times> string) option" where
  "jliteral s =
     (if HasPrefix s ''true'' then Some (JBool True, drop 4 s)
      else if HasPrefix s ''false'' then Some (JBool False, drop 5 s)
      else if HasPrefix s ''null'' then Some (JNull, drop 4 s)
      else jnumber s)"

text \<open>The outer option is the fuel, the inner one the syntax; \<open>d\<close> is how many more
  brackets may be opened.\<close>

type_synonym 'a parsed = "('a \<times> string) option option"

definition parsed_map :: "('a \<Rightarrow> 'b) \<Rightarrow> 'a parsed \<Rightarrow> 'b parsed" where
  "parsed_map f = map_option (map_option (\<lambda>(x, r). (f x, r)))"

definition opens_with :: "char \<Rightarrow> string \<Rightarrow> bool" where
  "opens_with c s \<longleftrightarrow> s \<noteq> [] \<and> hd s = c"

definition parsed_bind :: "'a parsed \<Rightarrow> ('a \<Rightarrow> string \<Rightarrow> 'b parsed) \<Rightarrow> 'b parsed" where
  "parsed_bind p k =
     (case p of None \<Rightarrow> None | Some None \<Rightarrow> Some None | Some (Some (x, r)) \<Rightarrow> k x (skip_ws r))"

lemma parsed_bind_cong [fundef_cong]:
  "p = q \<Longrightarrow> (\<And>x r. q = Some (Some (x, r)) \<Longrightarrow> k x (skip_ws r) = k' x (skip_ws r))
    \<Longrightarrow> parsed_bind p k = parsed_bind q k'"
  by (auto simp: parsed_bind_def split: option.splits)

fun jvalue :: "nat \<Rightarrow> nat \<Rightarrow> string \<Rightarrow> json parsed"
and jelems :: "nat \<Rightarrow> nat \<Rightarrow> string \<Rightarrow> json list parsed"
and jmembers :: "nat \<Rightarrow> nat \<Rightarrow> string \<Rightarrow> (string \<times> json) list parsed" where
  "jvalue 0 d s = None"
| "jvalue (Suc f) d s =
     (if s = [] then Some None
      else if hd s = quote then
        Some (map_option (\<lambda>(x, r). (JString x, r)) (jstring (tl s)))
      else if hd s = CHR ''['' then
        (if d = 0 then Some None
         else if opens_with (CHR '']'') (skip_ws (tl s)) then Some (Some (JArray [], tl (skip_ws (tl s))))
         else parsed_map JArray (jelems f (d - 1) (skip_ws (tl s))))
      else if hd s = CHR ''{'' then
        (if d = 0 then Some None
         else if opens_with (CHR ''}'') (skip_ws (tl s)) then Some (Some (JObject [], tl (skip_ws (tl s))))
         else parsed_map JObject (jmembers f (d - 1) (skip_ws (tl s))))
      else Some (jliteral s))"
| "jelems 0 d s = None"
| "jelems (Suc f) d s =
     parsed_bind (jvalue f d s) (\<lambda>v r.
       if opens_with (CHR '','') r then parsed_map (\<lambda>vs. v # vs) (jelems f d (skip_ws (tl r)))
       else if opens_with (CHR '']'') r then Some (Some ([v], tl r))
       else Some None)"
| "jmembers 0 d s = None"
| "jmembers (Suc f) d s =
     (if \<not> opens_with quote s then Some None
      else parsed_bind (Some (jstring (tl s))) (\<lambda>k r0.
        if \<not> opens_with (CHR '':'') r0 then Some None
        else parsed_bind (jvalue f d (skip_ws (tl r0))) (\<lambda>v r.
          if opens_with (CHR '','') r then parsed_map (\<lambda>ms. (k, v) # ms) (jmembers f d (skip_ws (tl r)))
          else if opens_with (CHR ''}'') r then Some (Some ([(k, v)], tl r))
          else Some None)))"

definition max_nesting :: nat where "max_nesting = 10000"

definition parse_json :: "string \<Rightarrow> json option" where
  "parse_json s =
     (case jvalue (2 * length s + 2) max_nesting (skip_ws s) of
        Some (Some (v, r)) \<Rightarrow> if skip_ws r = [] then Some v else None
      | _ \<Rightarrow> None)"

section \<open>Storing a value\<close>

definition syntax_error :: go_error where "syntax_error = LibError ''invalid JSON''"
definition type_error :: go_error where "type_error = LibError ''JSON value of another type''"

text \<open>A string variable: \<open>null\<close> leaves it, another type is an error.\<close>

fun store_string :: "json \<Rightarrow> string \<Rightarrow> (go_error, string) result" where
  "store_string (JString x) old = Inr x"
| "store_string JNull old = Inr old"
| "store_string _ old = Inl type_error"

text \<open>A struct with one string field named \<open>field\<close>. Keys match up to case, the last one
  wins, other keys are skipped; a value of another type leaves the field alone, the rest is
  still read, and the error is returned at the end.\<close>

fun store_members :: "string \<Rightarrow> (string \<times> json) list \<Rightarrow> bool \<Rightarrow> string \<Rightarrow> (go_error, string) result" where
  "store_members field [] bad old = (if bad then Inl type_error else Inr old)"
| "store_members field ((k, v) # ms) bad old =
     (if EqualFold k field then
        (case store_string v old of
           Inl _ \<Rightarrow> store_members field ms True old
         | Inr new \<Rightarrow> store_members field ms bad new)
      else store_members field ms bad old)"

definition unmarshal_field :: "string \<Rightarrow> string \<Rightarrow> (go_error, string) result" where
  "unmarshal_field field s =
     (case parse_json s of
        None \<Rightarrow> Inl syntax_error
      | Some JNull \<Rightarrow> Inr []
      | Some (JObject ms) \<Rightarrow> store_members field ms False []
      | Some _ \<Rightarrow> Inl type_error)"

text \<open>A nil slice of strings.\<close>

definition store_strings :: "json list \<Rightarrow> (go_error, string list) result" where
  "store_strings vs =
     (if list_all (\<lambda>v. is_ok (store_string v [])) vs
      then Inr (map (\<lambda>v. case store_string v [] of Inr x \<Rightarrow> x | Inl _ \<Rightarrow> []) vs)
      else Inl type_error)"

definition unmarshal_strings :: "string \<Rightarrow> (go_error, string list) result" where
  "unmarshal_strings s =
     (case parse_json s of
        None \<Rightarrow> Inl syntax_error
      | Some JNull \<Rightarrow> Inr []
      | Some (JArray vs) \<Rightarrow> store_strings vs
      | Some _ \<Rightarrow> Inl type_error)"

section \<open>The parser consumes its input and never runs out of fuel\<close>

lemma skip_ws_length: "length (skip_ws s) \<le> length s"
  by (simp add: skip_ws_def length_dropWhile_le)

lemma skip_ws_tl_less: "s \<noteq> [] \<Longrightarrow> length (skip_ws (tl s)) < length s"
  using skip_ws_length [of "tl s"] by (cases s) auto

lemma skip_ws_tl_tl_less:
  assumes "skip_ws (tl s) \<noteq> []"
  shows "length (tl (skip_ws (tl s))) < length s"
proof -
  have "tl s \<noteq> []" using assms by (auto simp: skip_ws_def)
  then have "s \<noteq> []" by auto
  then show ?thesis using skip_ws_tl_less [of s] by simp
qed

lemma literal_items_shrinks: "literal_items s = Some (is, r) \<Longrightarrow> length r < length s"
proof (induction s arbitrary: "is" r rule: literal_items.induct)
  case 1
  then show ?case by simp
next
  case (2 c cs)
  then show ?case
    by (fastforce simp: cons_item_def split: if_splits list.splits option.splits)
qed

lemma jstring_shrinks: "jstring s = Some (x, r) \<Longrightarrow> length r < length s"
  by (auto simp: jstring_def dest: literal_items_shrinks)

lemma skip_digits_shrinks: "skip_digits s = Some r \<Longrightarrow> length r < length s"
proof (cases s)
  case (Cons c cs)
  assume "skip_digits s = Some r"
  with Cons show ?thesis
    using length_dropWhile_le [of is_digit cs] by (auto simp: skip_digits_def split: if_splits)
qed (simp add: skip_digits_def)

lemma skip_fraction_le: "skip_fraction s = Some r \<Longrightarrow> length r \<le> length s"
  using skip_digits_shrinks [of "tl s" r]
  by (auto simp: skip_fraction_def split: if_splits)

lemma skip_exponent_le: "skip_exponent s = Some r \<Longrightarrow> length r \<le> length s"
  by (cases s) (auto simp: skip_exponent_def dest!: skip_digits_shrinks split: if_splits list.splits)

lemma skip_number_shrinks: "skip_number s = Some r \<Longrightarrow> length r < length s"
proof -
  assume r: "skip_number s = Some r"
  define t where "t = (if s \<noteq> [] \<and> hd s = CHR ''-'' then tl s else s)"
  from r obtain u v where uv: "(if t \<noteq> [] \<and> hd t = CHR ''0'' then Some (tl t) else skip_digits t) = Some u"
      "skip_fraction u = Some v" "skip_exponent v = Some r"
    unfolding skip_number_def Let_def t_def [symmetric] by (auto simp: bind_eq_Some_conv)
  have "length u < length t"
    using uv(1) by (auto dest: skip_digits_shrinks split: if_splits)
  moreover have "length t \<le> length s" by (simp add: t_def)
  ultimately show ?thesis using skip_fraction_le [OF uv(2)] skip_exponent_le [OF uv(3)] by linarith
qed

lemma jliteral_shrinks: "jliteral s = Some (v, r) \<Longrightarrow> length r < length s"
  by (auto simp: jliteral_def jnumber_def HasPrefix_iff dest!: skip_number_shrinks split: if_splits)

lemma parsed_map_Some: "parsed_map f p = Some (Some (y, r)) \<longleftrightarrow> (\<exists>x. p = Some (Some (x, r)) \<and> y = f x)"
  by (auto simp: parsed_map_def)

lemma parsed_map_None [simp]: "parsed_map f p = None \<longleftrightarrow> p = None"
  by (simp add: parsed_map_def)

lemma parsed_bind_Some:
  "parsed_bind p k = Some (Some y) \<longleftrightarrow>
     (\<exists>x r. p = Some (Some (x, r)) \<and> k x (skip_ws r) = Some (Some y))"
  by (auto simp: parsed_bind_def split: option.splits)

lemma parsed_bind_None:
  "parsed_bind p k = None \<longleftrightarrow> p = None \<or> (\<exists>x r. p = Some (Some (x, r)) \<and> k x (skip_ws r) = None)"
  by (auto simp: parsed_bind_def split: option.splits)

lemma opens_with_less:
  "opens_with c (skip_ws r) \<Longrightarrow> length r < n \<Longrightarrow> length (tl (skip_ws r)) < n"
  using skip_ws_length [of r] by (auto simp: opens_with_def)

lemma opens_with_less2:
  "opens_with c (skip_ws r) \<Longrightarrow> length r < n \<Longrightarrow> Suc (length (skip_ws (tl (skip_ws r)))) < n"
  using skip_ws_length [of r] skip_ws_length [of "tl (skip_ws r)"]
  by (cases "skip_ws r") (auto simp: opens_with_def)

lemma parser_shrinks:
  "jvalue f d s = Some (Some (v, r)) \<Longrightarrow> length r < length s"
  "jelems f d s = Some (Some (vs, r)) \<Longrightarrow> length r < length s"
  "jmembers f d s = Some (Some (ms, r)) \<Longrightarrow> length r < length s"
proof (induction f d s and f d s and f d s arbitrary: v r and vs r and ms r
    rule: jvalue_jelems_jmembers.induct)
  case (2 f d s)
  from "2.prems" have s: "s \<noteq> []" by auto
  note less = skip_ws_tl_less [OF s]
  consider (str) "hd s = quote" | (arr) "hd s = CHR ''[''" "d \<noteq> 0" | (obj) "hd s = CHR ''{''" "d \<noteq> 0"
    | (lit) "jliteral s = Some (v, r)"
    using "2.prems" s by (auto split: if_splits)
  then show ?case
  proof cases
    case str
    with "2.prems" s obtain x where "jstring (tl s) = Some (x, r)" by auto
    then show ?thesis using jstring_shrinks [of "tl s" x r] s by (cases s) auto
  next
    case arr
    then have nq: "hd s \<noteq> quote" by (simp add: quote_def)
    show ?thesis
    proof (cases "opens_with (CHR '']'') (skip_ws (tl s))")
      case True
      with "2.prems" s arr nq show ?thesis using skip_ws_tl_tl_less [of s] by (auto simp: opens_with_def)
    next
      case False
      with "2.prems" s arr nq obtain vs where "jelems f (d - 1) (skip_ws (tl s)) = Some (Some (vs, r))"
        by (auto simp: parsed_map_Some)
      with "2.IH"(1) [OF s nq arr False] less show ?thesis by fastforce
    qed
  next
    case obj
    then have nq: "hd s \<noteq> quote" "hd s \<noteq> CHR ''[''" by (simp_all add: quote_def)
    show ?thesis
    proof (cases "opens_with (CHR ''}'') (skip_ws (tl s))")
      case True
      with "2.prems" s obj nq show ?thesis using skip_ws_tl_tl_less [of s] by (auto simp: opens_with_def)
    next
      case False
      with "2.prems" s obj nq obtain ms where "jmembers f (d - 1) (skip_ws (tl s)) = Some (Some (ms, r))"
        by (auto simp: parsed_map_Some)
      with "2.IH"(2) [OF s nq obj False] less show ?thesis by fastforce
    qed
  next
    case lit
    then show ?thesis by (rule jliteral_shrinks)
  qed
next
  case (4 f d s)
  from "4.prems" obtain v r0 where v: "jvalue f d s = Some (Some (v, r0))" by (auto simp: parsed_bind_Some)
  then have r0: "length r0 < length s" by (rule "4.IH"(1))
  show ?case
  proof (cases "opens_with (CHR '','') (skip_ws r0)")
    case True
    with "4.prems" v obtain ws where "jelems f d (skip_ws (tl (skip_ws r0))) = Some (Some (ws, r))"
      by (auto simp: parsed_bind_def parsed_map_Some)
    with "4.IH"(2) [OF v True] opens_with_less2 [OF True r0] show ?thesis by fastforce
  next
    case False
    with "4.prems" v opens_with_less [OF _ r0] show ?thesis by (auto simp: parsed_bind_def split: if_splits)
  qed
next
  case (6 f d s)
  from "6.prems" have s: "opens_with quote s" by (auto split: if_splits)
  with "6.prems" obtain k rk where k: "jstring (tl s) = Some (k, rk)" by (auto simp: parsed_bind_def split: option.splits)
  then have rk: "length rk < length s" using jstring_shrinks [OF k] by simp
  from "6.prems" s k have col: "opens_with (CHR '':'') (skip_ws rk)" by (auto simp: parsed_bind_def split: if_splits)
  note l1 = opens_with_less2 [OF col rk]
  from "6.prems" s k col obtain v r0 where v: "jvalue f d (skip_ws (tl (skip_ws rk))) = Some (Some (v, r0))"
    by (auto simp: parsed_bind_def split: option.splits)
  have "length r0 < length (skip_ws (tl (skip_ws rk)))"
    by (rule "6.IH"(1) [of k rk]) (use s k col v in auto)
  then have r0: "length r0 < length s" using l1 by simp
  show ?case
  proof (cases "opens_with (CHR '','') (skip_ws r0)")
    case True
    with "6.prems" s k col v obtain ws where ws: "jmembers f d (skip_ws (tl (skip_ws r0))) = Some (Some (ws, r))"
      by (auto simp: parsed_bind_def parsed_map_Some)
    have "length r < length (skip_ws (tl (skip_ws r0)))"
      by (rule "6.IH"(2) [of k rk]) (use s k col v True ws in auto)
    then show ?thesis using opens_with_less2 [OF True r0] by simp
  next
    case False
    with "6.prems" s k col v opens_with_less [OF _ r0] show ?thesis by (auto simp: parsed_bind_def split: if_splits)
  qed
qed simp_all

text \<open>The fuel.\<close>

lemma parser_total:
  "2 * length s < f \<Longrightarrow> jvalue f d s \<noteq> None"
  "2 * length s + 1 < f \<Longrightarrow> jelems f d s \<noteq> None"
  "2 * length s + 1 < f \<Longrightarrow> jmembers f d s \<noteq> None"
proof (induction f d s and f d s and f d s rule: jvalue_jelems_jmembers.induct)
  case (2 f d s)
  show ?case
  proof (cases "s = []")
    case False
    note less = skip_ws_tl_less [OF False]
    have enough: "2 * length (skip_ws (tl s)) + 1 < f" using less "2.prems" by simp
    then show ?thesis using False "2.IH"(1) [OF False] "2.IH"(2) [OF False] by (auto simp: parsed_map_def)
  qed simp
next
  case (4 f d s)
  have "jvalue f d s \<noteq> None" using "4.IH"(1) "4.prems" by simp
  moreover have "jelems f d (skip_ws (tl (skip_ws r))) \<noteq> None"
    if v: "jvalue f d s = Some (Some (v, r))" and c: "opens_with (CHR '','') (skip_ws r)" for v r
    using "4.IH"(2) [OF v c] opens_with_less2 [OF c parser_shrinks(1) [OF v]] "4.prems" by simp
  ultimately show ?case by (auto simp: parsed_bind_None parsed_map_def)
next
  case (6 f d s)
  show ?case
  proof (cases "opens_with quote s")
    case True
    have step: "jvalue f d (skip_ws (tl (skip_ws rk))) \<noteq> None
        \<and> (\<forall>v r. jvalue f d (skip_ws (tl (skip_ws rk))) = Some (Some (v, r)) \<and> opens_with (CHR '','') (skip_ws r)
             \<longrightarrow> jmembers f d (skip_ws (tl (skip_ws r))) \<noteq> None)"
      if k: "Some (jstring (tl s)) = Some (Some (k, rk))" and col: "opens_with (CHR '':'') (skip_ws rk)" for k rk
    proof -
      have rk: "length rk < length s" using k jstring_shrinks [of "tl s" k rk] by simp
      note l1 = opens_with_less2 [OF col rk]
      have "jmembers f d (skip_ws (tl (skip_ws r))) \<noteq> None"
        if v: "jvalue f d (skip_ws (tl (skip_ws rk))) = Some (Some (v, r))" and c: "opens_with (CHR '','') (skip_ws r)" for v r
      proof -
        have "length r < length s" using parser_shrinks(1) [OF v] l1 by simp
        from opens_with_less2 [OF c this] "6.prems"
        show ?thesis using "6.IH"(2) [of k rk v r] True k col v c by simp
      qed
      moreover have "jvalue f d (skip_ws (tl (skip_ws rk))) \<noteq> None"
        using "6.IH"(1) [of k rk] True k col l1 "6.prems" by simp
      ultimately show ?thesis by blast
    qed
    then show ?thesis using True
      by (fastforce simp: parsed_bind_def parsed_map_def split: option.split)
  qed simp
qed simp_all

text \<open>So the parser only fails on text that is not JSON.\<close>

lemma jvalue_total: "jvalue (2 * length s + 2) d (skip_ws s) \<noteq> None"
  using parser_total(1) [of "skip_ws s" "2 * length s + 2" d] skip_ws_length [of s] by simp

section \<open>Reading back what is written\<close>

definition ascii :: "string \<Rightarrow> bool" where
  "ascii s = list_all (\<lambda>c. of_char c < (128::nat)) s"

definition item_is :: "char \<Rightarrow> item \<Rightarrow> bool" where
  "item_is c i \<longleftrightarrow> i = IByte c \<or> i = IUnit (of_char c)"

lemma literal_escape:
  "\<exists>i. item_is c i \<and> literal_items (escape_char c @ r) = cons_item i (literal_items r)"
proof -
  let ?n = "of_char c :: nat"
  have hl: "?n div 16 < 16" "?n mod 16 < 16" using nat_of_char_less_256 [of c] by (simp_all add: less_mult_imp_div_less)
  consider (self) "c = quote \<or> c = backslash" | (simple) "?n \<in> {8, 12, 10, 13, 9}"
    | (hex) "\<not> (c = quote \<or> c = backslash)" "?n \<notin> {8, 12, 10, 13, 9}"
        "?n < 32 \<or> c = CHR ''<'' \<or> c = CHR ''>'' \<or> c = CHR ''&''"
    | (plain) "\<not> (c = quote \<or> c = backslash)" "?n \<notin> {8, 12, 10, 13, 9}"
        "\<not> (?n < 32 \<or> c = CHR ''<'' \<or> c = CHR ''>'' \<or> c = CHR ''&'')"
    by blast
  then show ?thesis
  proof cases
    case self
    then show ?thesis
      by (intro exI [of _ "IByte c"])
        (auto simp: item_is_def escape_char_def unescape_simple_def quote_def backslash_def)
  next
    case simple
    have c: "c = char_of ?n" by simp
    from simple show ?thesis
      by (intro exI [of _ "IByte c"])
        (auto simp: item_is_def escape_char_def unescape_simple_def Let_def quote_def backslash_def,
          (metis char_of_char)+)
  next
    case hex
    then have "escape_char c =
        [backslash, CHR ''u'', CHR ''0'', CHR ''0'', digit_char (?n div 16), digit_char (?n mod 16)]"
      by (simp add: escape_char_def Let_def)
    moreover have "hex4_val (CHR ''0'') (CHR ''0'') (digit_char (?n div 16)) (digit_char (?n mod 16)) = Some ?n"
      by (simp add: hex4_val_def hex_val_digit_char hl)
    ultimately show ?thesis by (intro exI [of _ "IUnit ?n"]) (simp add: item_is_def)
  next
    case plain
    then have "escape_char c = [c]" by (simp add: escape_char_def Let_def)
    with plain show ?thesis by (intro exI [of _ "IByte c"]) (simp add: item_is_def)
  qed
qed

lemma literal_json_string:
  "\<exists>is. list_all2 item_is s is \<and> literal_items (concat (map escape_char s) @ quote # r) = Some (is, r)"
proof (induction s)
  case (Cons c s)
  then obtain "is" where i: "list_all2 item_is s is" "literal_items (concat (map escape_char s) @ quote # r) = Some (is, r)"
    by blast
  obtain j where j: "item_is c j"
      "literal_items (escape_char c @ concat (map escape_char s) @ quote # r)
        = cons_item j (literal_items (concat (map escape_char s) @ quote # r))"
    using literal_escape by blast
  then show ?case using i by (intro exI [of _ "j # is"]) (simp add: cons_item_def)
qed simp

lemma decode_ascii: "list_all2 item_is s is \<Longrightarrow> ascii s \<Longrightarrow> decode_items is = s"
proof (induction s "is" rule: list_all2_induct)
  case (Cons c s i js)
  have n: "of_char c < (128::nat)" using Cons.prems by (simp add: ascii_def)
  have "decode_items js = s" using Cons by (simp add: ascii_def)
  moreover have "i = IByte c \<or> i = IUnit (of_char c)" using Cons by (simp add: item_is_def)
  moreover have "\<not> is_surrogate (of_char c)" using n by (simp add: is_surrogate_def between_def)
  moreover have "leading_bytes 4 (IByte c # js) = of_char c # leading_bytes 3 js"
    by simp
  moreover have "leading_bytes 0 js = []" by (cases "(0 :: nat, js)" rule: leading_bytes.cases) simp_all
  ultimately show ?case using n by (auto simp: utf8_def)
qed simp

lemma jstring_json_string: "ascii s \<Longrightarrow> jstring (tl (json_string s @ r)) = Some (s, r)"
  using literal_json_string [of s r] decode_ascii by (auto simp: jstring_def json_string_def)

lemma jvalue_json_string: "ascii s \<Longrightarrow> jvalue (Suc f) d (json_string s @ r) = Some (Some (JString s, r))"
  using jstring_json_string [of s r] by (simp add: json_string_def)

text \<open>An object with one string member.\<close>

definition metadata_text :: "string \<Rightarrow> string \<Rightarrow> string" where
  "metadata_text k v = ''{'' @ json_key k @ json_string v @ ''}''"

lemma skip_ws_simps [simp]:
  "skip_ws (json_string s @ r) = json_string s @ r"
  "skip_ws (CHR '':'' # r) = CHR '':'' # r" "skip_ws (CHR ''}'' # r) = CHR ''}'' # r"
  "skip_ws (CHR ''{'' # r) = CHR ''{'' # r" "skip_ws [] = []"
  by (simp_all add: skip_ws_def json_ws_def json_string_def quote_def)

lemma parse_metadata_text:
  assumes "ascii k" and "ascii v"
  shows "parse_json (metadata_text k v) = Some (JObject [(k, JString v)])"
proof -
  let ?s = "metadata_text k v"
  have s: "?s = CHR ''{'' # json_string k @ CHR '':'' # json_string v @ [CHR ''}'']"
    by (simp add: metadata_text_def json_key_def)
  have [simp]: "\<not> opens_with (CHR ''}'') (json_string k @ r)" "opens_with quote (json_string k @ r)" for r
    by (simp_all add: opens_with_def json_string_def quote_def)
  have opens_with_iff: "opens_with c (c' # r) \<longleftrightarrow> c = c'" for c c' r by (auto simp: opens_with_def)
  have m: "jmembers (Suc (Suc f)) d (json_string k @ CHR '':'' # json_string v @ [CHR ''}''])
      = Some (Some ([(k, JString v)], []))" for f d
    using jstring_json_string [OF assms(1), of "CHR '':'' # json_string v @ [CHR ''}'']"]
      jvalue_json_string [OF assms(2), of f d "[CHR ''}'']"]
    by (simp add: parsed_bind_def opens_with_iff del: jvalue.simps)
  have "jvalue (Suc (Suc (Suc f))) (Suc d) ?s = Some (Some (JObject [(k, JString v)], []))" for f d
    using m [of f d] by (simp add: s parsed_map_def quote_def del: jmembers.simps)
  moreover obtain f where "2 * length ?s + 2 = Suc (Suc (Suc f))" by (simp add: s)
  moreover obtain d where "max_nesting = Suc d" by (auto simp: max_nesting_def intro: that [of 9999])
  moreover have "skip_ws ?s = ?s" by (simp add: s)
  ultimately have "jvalue (2 * length ?s + 2) max_nesting (skip_ws ?s) = Some (Some (JObject [(k, JString v)], []))"
    by metis
  then show ?thesis unfolding parse_json_def by (simp only: option.case prod.case skip_ws_simps if_True simp_thms)
qed

text \<open>An array with one string.\<close>

definition singleton_text :: "string \<Rightarrow> string" where
  "singleton_text s = ''['' @ json_string s @ '']''"

lemma parse_singleton_text:
  assumes "ascii s"
  shows "parse_json (singleton_text s) = Some (JArray [JString s])"
proof -
  let ?s = "singleton_text s"
  have t: "?s = CHR ''['' # json_string s @ [CHR '']'']" by (simp add: singleton_text_def)
  have ws: "skip_ws [CHR '']''] = [CHR '']'']" "skip_ws ?s = ?s"
    by (simp_all add: t skip_ws_def json_ws_def)
  have "\<not> opens_with (CHR '']'') (json_string s @ r)" for r by (simp add: opens_with_def json_string_def quote_def)
  moreover have "jelems (Suc (Suc f)) d (json_string s @ [CHR '']'']) = Some (Some ([JString s], []))" for f d
    using jvalue_json_string [OF assms, of f d "[CHR '']'']"]
    by (simp add: parsed_bind_def opens_with_def ws del: jvalue.simps)
  ultimately have "jvalue (Suc (Suc (Suc f))) (Suc d) ?s = Some (Some (JArray [JString s], []))" for f d
    by (simp add: t parsed_map_def quote_def del: jelems.simps)
  moreover obtain f where "2 * length ?s + 2 = Suc (Suc (Suc f))" by (simp add: t)
  moreover obtain d where "max_nesting = Suc d" by (auto simp: max_nesting_def intro: that [of 9999])
  ultimately have "jvalue (2 * length ?s + 2) max_nesting (skip_ws ?s) = Some (Some (JArray [JString s], []))"
    using ws(2) by metis
  then show ?thesis unfolding parse_json_def by (simp only: option.case prod.case skip_ws_simps if_True simp_thms)
qed

end
