(* ===== verification/Files.thy ===== *)
theory Files
  imports Errors
begin

text \<open>
  \<^verbatim>\<open>path/filepath\<close> on Unix (\<open>Clean\<close>, \<open>Join\<close>, \<open>Dir\<close>) and the files of the machine: a
  map from paths to contents and permission bits. Directories are not in the map; whether
  creating one works is an answer of the environment of the operation that does it.
\<close>

section \<open>Paths\<close>

definition slash :: char where "slash = CHR ''/''"

text \<open>The elements of a path, \<open>out\<close> is the stack of those kept so far.\<close>

fun clean_elems :: "bool \<Rightarrow> string list \<Rightarrow> string list \<Rightarrow> string list" where
  "clean_elems rooted out [] = rev out"
| "clean_elems rooted out (c # cs) =
     (if c = [] \<or> c = ''.'' then clean_elems rooted out cs
      else if c = ''..'' then
        (if out \<noteq> [] \<and> hd out \<noteq> ''..'' then clean_elems rooted (tl out) cs
         else if rooted then clean_elems rooted out cs
         else clean_elems rooted (c # out) cs)
      else clean_elems rooted (c # out) cs)"

definition path_clean :: "string \<Rightarrow> string" where
  "path_clean p =
     (let rooted = (p \<noteq> [] \<and> hd p = slash);
          body = Join (clean_elems rooted [] (split_on slash p)) [slash]
      in if rooted then slash # body else if body = [] then ''.'' else body)"

definition path_join :: "string list \<Rightarrow> string" where
  "path_join es =
     (case dropWhile (\<lambda>e. e = []) es of [] \<Rightarrow> [] | fs \<Rightarrow> path_clean (Join fs [slash]))"

definition path_dir :: "string \<Rightarrow> string" where
  "path_dir p = path_clean (case last_index_of slash p of None \<Rightarrow> [] | Some i \<Rightarrow> take (Suc i) p)"

text \<open>An element that names an entry of its directory, and the absolute path of a list of
  such elements.\<close>

definition plain_elem :: "string \<Rightarrow> bool" where
  "plain_elem c \<longleftrightarrow> c \<noteq> [] \<and> c \<noteq> ''.'' \<and> c \<noteq> ''..'' \<and> slash \<notin> set c"

definition abs_path :: "string list \<Rightarrow> string" where
  "abs_path cs = slash # Join cs [slash]"

declare slash_def [text_simps] plain_elem_def [text_simps]

lemma Join_Cons: "ws \<noteq> [] \<Longrightarrow> Join (w # ws) sep = w @ sep @ Join ws sep"
  by (cases ws) simp_all

lemma Join_append: "vs \<noteq> [] \<Longrightarrow> ws \<noteq> [] \<Longrightarrow> Join (vs @ ws) sep = Join vs sep @ sep @ Join ws sep"
proof (induction vs)
  case (Cons v vs)
  then show ?case by (cases vs) (simp_all add: Join_Cons)
qed simp

lemma split_on_Join:
  "list_all (\<lambda>c. sep \<notin> set c) cs \<Longrightarrow> cs \<noteq> [] \<Longrightarrow> split_on sep (Join cs [sep]) = cs"
proof (induction cs)
  case (Cons c cs)
  then show ?case by (cases cs) (simp_all add: Join_Cons split_on_append split_on_single)
qed simp

lemma clean_elems_plain:
  "list_all plain_elem cs \<Longrightarrow> clean_elems rooted out cs = rev out @ cs"
proof (induction cs arbitrary: out)
  case (Cons c cs)
  then show ?case by (simp add: plain_elem_def)
qed simp

lemma split_on_slash_Cons: "split_on slash (slash # s) = [] # split_on slash s"
  using split_on_append [of slash "[]" s] by simp

lemma path_clean_abs: "list_all plain_elem cs \<Longrightarrow> path_clean (abs_path cs) = abs_path cs"
proof (cases "cs = []")
  case False
  assume cs: "list_all plain_elem cs"
  then have "list_all (\<lambda>c. slash \<notin> set c) cs" by (simp add: list_all_iff plain_elem_def)
  with False have "split_on slash (abs_path cs) = [] # cs"
    by (simp add: abs_path_def split_on_slash_Cons split_on_Join)
  then show ?thesis using cs
    by (simp add: path_clean_def abs_path_def clean_elems_plain Let_def)
qed (simp add: abs_path_def path_clean_def split_on_def slash_def Let_def)

lemma path_join_abs:
  assumes "list_all plain_elem (cs @ es)" and "cs \<noteq> []"
  shows "path_join (abs_path cs # es) = abs_path (cs @ es)"
proof -
  have "Join (abs_path cs # es) [slash] = abs_path (cs @ es)"
    using assms by (cases "es = []") (simp_all add: abs_path_def Join_Cons Join_append)
  then show ?thesis
    using path_clean_abs [OF assms(1)] by (simp add: path_join_def abs_path_def)
qed

lemma abs_path_inj:
  assumes "abs_path cs = abs_path ds" and "list_all plain_elem cs" and "list_all plain_elem ds"
    and "cs \<noteq> []" and "ds \<noteq> []"
  shows "cs = ds"
proof -
  have "list_all (\<lambda>c. slash \<notin> set c) cs" "list_all (\<lambda>c. slash \<notin> set c) ds"
    using assms(2,3) by (simp_all add: list_all_iff plain_elem_def)
  with assms(1,4,5) show ?thesis
    by (metis abs_path_def list.inject split_on_Join)
qed

section \<open>Files\<close>

record file_node =
  f_content :: string
  f_mode :: nat

type_synonym file_system = "string \<rightharpoonup> file_node"

definition not_exist :: go_error where "not_exist = LibError ''file does not exist''"

text \<open>Writing a file from its start: a file that exists keeps its permission bits.\<close>

definition write_file :: "string \<Rightarrow> string \<Rightarrow> nat \<Rightarrow> file_system \<Rightarrow> file_system" where
  "write_file p content mode fs =
     fs(p \<mapsto> (case fs p of None \<Rightarrow> \<lparr>f_content = content, f_mode = mode\<rparr>
                          | Some f \<Rightarrow> f\<lparr>f_content := content\<rparr>))"

definition rename_file :: "string \<Rightarrow> string \<Rightarrow> file_system \<Rightarrow> file_system" where
  "rename_file p q fs = (map_remove fs p)(q := fs p)"

lemma write_file_other [simp]: "q \<noteq> p \<Longrightarrow> write_file p c m fs q = fs q"
  by (simp add: write_file_def)

lemma write_file_content: "\<exists>f. write_file p c m fs p = Some f \<and> f_content f = c"
  by (auto simp: write_file_def split: option.split)

end
