(* ===== verification/Addresses.thy ===== *)
theory Addresses
  imports Options "HOL-Library.List_Lexorder" "HOL-Library.Multiset"
begin

text \<open>
  The loopback addresses of \<^verbatim>\<open>subprocess.go\<close>: how a backend is given an address
  (\<open>loopbackBackendAddresses\<close>, \<open>concreteLoopbackBind\<close>,
  \<open>reserveLoopbackAddress\<close>, \<open>allocateBackendAddressLocked\<close>), how addresses are stored
  under a backend's names, and how they are described in error messages.

  The kernel, the random source and the embedder's hook answer differently on every
  call. Their answers are functions of a call counter that the operations thread through
  (\<open>net_env\<close>): the \<open>t\<close>-th \<^verbatim>\<open>net.Listen\<close>, the error of closing that
  listener, the \<open>t\<close>-th \<^verbatim>\<open>rand.IntN\<close>, the \<open>t\<close>-th answer of
  \<^verbatim>\<open>ReserveLoopbackAddress\<close> (an address, and whether the release function is
  non-nil; the release function of call \<open>t\<close> is identified by \<open>t\<close>).
\<close>

record net_env =
  listen :: "nat \<Rightarrow> string \<Rightarrow> (go_error, string) result"
  listen_close :: "nat \<Rightarrow> go_error option"
  rand_int :: "nat \<Rightarrow> nat \<Rightarrow> nat"
  reserve_hook :: "nat \<Rightarrow> string \<Rightarrow> (go_error, string \<times> bool) result"

text \<open>A release function: nil, one that does nothing, or the embedder's.\<close>

datatype release = NilRelease | NopRelease | Release nat

text \<open>What is documented of \<^verbatim>\<open>rand.IntN\<close> and of listening on a fixed port: the number
  is below the bound, and the listener's address has the port that was asked for.\<close>

definition net_env_ok :: "net_env \<Rightarrow> bool" where
  "net_env_ok env \<longleftrightarrow>
     (\<forall>t n. 0 < n \<longrightarrow> rand_int env t n < n)
     \<and> (\<forall>t h p a. listen env t (JoinHostPort h (Itoa p)) = Inr a \<longrightarrow> p \<noteq> 0 \<longrightarrow>
          (\<exists>h'. plain_host h' \<and> a = JoinHostPort h' (Itoa p)))"

section \<open>Storing addresses\<close>

definition storeBackendAddress :: "(string \<rightharpoonup> string) \<Rightarrow> string \<Rightarrow> string \<Rightarrow> (string \<rightharpoonup> string)" where
  "storeBackendAddress addrs name addr =
     (addrs(name \<mapsto> addr))(backendLookupName name \<mapsto> addr)"

definition cloneBackendAddresses :: "(string \<rightharpoonup> string) \<Rightarrow> (string \<rightharpoonup> string)" where
  "cloneBackendAddresses addrs = (\<lambda>k. case addrs k of None \<Rightarrow> None | Some a \<Rightarrow> Some a)"

text \<open>The lookup every runner answers \<^verbatim>\<open>backendAddress\<close> with.\<close>

definition lookup_address :: "(string \<rightharpoonup> string) \<Rightarrow> string \<Rightarrow> (go_error, string) result" where
  "lookup_address addrs name =
     (case addrs name of
        Some a \<Rightarrow> Inr a
      | None \<Rightarrow> (case addrs (backendLookupName name) of
                  Some a \<Rightarrow> Inr a
                | None \<Rightarrow> Inl (Sentinel ErrBackendNotFound)))"

lemma clone_id [simp]: "cloneBackendAddresses addrs = addrs"
  by (auto simp: cloneBackendAddresses_def split: option.splits)

lemma store_lookup [simp]:
  "storeBackendAddress addrs name addr name = Some addr"
  "storeBackendAddress addrs name addr (backendLookupName name) = Some addr"
  by (simp_all add: storeBackendAddress_def)

lemma store_other:
  "k \<noteq> name \<Longrightarrow> k \<noteq> backendLookupName name \<Longrightarrow> storeBackendAddress addrs name addr k = addrs k"
  by (simp add: storeBackendAddress_def)

lemma store_other_key:
  "backendLookupName k \<noteq> backendLookupName name \<Longrightarrow> storeBackendAddress addrs name addr k = addrs k"
  by (auto simp: storeBackendAddress_def)

lemma dom_store [simp]:
  "dom (storeBackendAddress addrs name addr) = insert name (insert (backendLookupName name) (dom addrs))"
  by (auto simp: storeBackendAddress_def)

lemma lookup_store:
  "backendLookupName q = backendLookupName name \<Longrightarrow>
   addrs q = None \<or> q = name \<or> q = backendLookupName name \<Longrightarrow>
   lookup_address (storeBackendAddress addrs name addr) q = Inr addr"
  by (auto simp: lookup_address_def storeBackendAddress_def)

section \<open>Allocation\<close>

text \<open>\<open>concreteLoopbackBind\<close>: a pinned port is probed and used as it is, port 0 is
  replaced by the port of a listener that is closed again.\<close>

definition concreteLoopbackBind ::
  "net_env \<Rightarrow> nat \<Rightarrow> string \<Rightarrow> (go_error, string) result \<times> nat" where
  "concreteLoopbackBind env t bind0 =
     (let bind = (if bind0 = [] then default_bind else bind0) in
      case SplitHostPort bind of
        Inl e \<Rightarrow> (Inl e, t)
      | Inr (host, port) \<Rightarrow>
          if port \<noteq> ''0'' then
            (case listen env t bind of
               Inl e \<Rightarrow> (Inl (Wrapped e [bind]), Suc t)
             | Inr _ \<Rightarrow> (case listen_close env t of
                           Some e \<Rightarrow> (Inl e, Suc t)
                         | None \<Rightarrow> (Inr bind, Suc t)))
          else
            (let h = (if host = [] then ''127.0.0.1'' else host) in
             case listen env t (JoinHostPort h ''0'') of
               Inl e \<Rightarrow> (Inl e, Suc t)
             | Inr addr \<Rightarrow> (case listen_close env t of
                              Some e \<Rightarrow> (Inl e, Suc t)
                            | None \<Rightarrow> (Inr addr, Suc t))))"

definition loopbackBackendAddress ::
  "net_env \<Rightarrow> nat \<Rightarrow> string \<Rightarrow> nat \<Rightarrow> (go_error, string) result \<times> nat" where
  "loopbackBackendAddress env t bind index = concreteLoopbackBind env t bind"

fun allocate_backends ::
  "net_env \<Rightarrow> nat \<Rightarrow> string \<Rightarrow> nat \<Rightarrow> backend list \<Rightarrow> (string \<rightharpoonup> string)
    \<Rightarrow> (go_error, string \<rightharpoonup> string) result \<times> nat" where
  "allocate_backends env t bind i [] addrs = (Inr addrs, t)"
| "allocate_backends env t bind i (b # bs) addrs =
     (case loopbackBackendAddress env t bind i of
        (Inl e, t') \<Rightarrow> (Inl (Wrapped e [b_Name b]), t')
      | (Inr addr, t') \<Rightarrow>
          allocate_backends env t' bind (Suc i) bs (storeBackendAddress addrs (b_Name b) addr))"

definition loopbackBackendAddresses ::
  "net_env \<Rightarrow> nat \<Rightarrow> string \<Rightarrow> backend list \<Rightarrow> (go_error, string \<rightharpoonup> string) result \<times> nat" where
  "loopbackBackendAddresses env t bind0 bs =
     (let bind = (if bind0 = [] then default_bind else bind0) in
      if length bs > 1 then
        (case SplitHostPort bind of
           Inl e \<Rightarrow> (Inl e, t)
         | Inr (_, port) \<Rightarrow>
             if port \<noteq> ''0'' then
               (Inl (NewError ''vialite: subprocess bind cannot be shared'' [bind, Itoa (length bs)]), t)
             else allocate_backends env t bind 0 bs Map.empty)
      else allocate_backends env t bind 0 bs Map.empty)"

text \<open>\<open>reserveLoopbackAddress\<close>: at most 256 random probes of the range 20000 to 29999;
  the fuel is the number of probes left.\<close>

definition dynamicBackendPortRangeStart :: nat where "dynamicBackendPortRangeStart = 20000"
definition dynamicBackendPortRangeEnd :: nat where "dynamicBackendPortRangeEnd = 29999"

fun probe_range ::
  "net_env \<Rightarrow> string \<Rightarrow> nat \<Rightarrow> nat \<Rightarrow> (go_error, string) result \<times> nat" where
  "probe_range env host 0 t =
     (Inl (Wrapped (Sentinel ErrDynamicAddressExhausted)
        [Itoa dynamicBackendPortRangeStart, Itoa dynamicBackendPortRangeEnd]), t)"
| "probe_range env host (Suc n) t =
     (let span = dynamicBackendPortRangeEnd - dynamicBackendPortRangeStart + 1;
          port = dynamicBackendPortRangeStart + rand_int env t span
      in case listen env t (JoinHostPort host (Itoa port)) of
           Inl _ \<Rightarrow> probe_range env host n (Suc t)
         | Inr addr \<Rightarrow> (case listen_close env t of
                          Some e \<Rightarrow> (Inl e, Suc t)
                        | None \<Rightarrow> (Inr addr, Suc t)))"

definition reserveLoopbackAddress ::
  "net_env \<Rightarrow> nat \<Rightarrow> string \<Rightarrow> (go_error, string) result \<times> nat" where
  "reserveLoopbackAddress env t host = probe_range env host 256 t"

definition dynamicLoopbackBackendAddress ::
  "net_env \<Rightarrow> nat \<Rightarrow> string \<Rightarrow> (go_error, string) result \<times> nat" where
  "dynamicLoopbackBackendAddress env t bind0 =
     (let bind = (if bind0 = [] then default_bind else bind0) in
      case SplitHostPort bind of
        Inl e \<Rightarrow> (Inl e, t)
      | Inr (host, _) \<Rightarrow>
          reserveLoopbackAddress env t (if host = [] then ''127.0.0.1'' else host))"

definition allocateBackendAddressLocked ::
  "net_env \<Rightarrow> nat \<Rightarrow> bool \<Rightarrow> string \<Rightarrow> (go_error, string \<times> release) result \<times> nat" where
  "allocateBackendAddressLocked env t has_hook bind0 =
     (if has_hook then
        (let bind = (if bind0 = [] then default_bind else bind0) in
         case SplitHostPort bind of
           Inl e \<Rightarrow> (Inl e, t)
         | Inr (host, _) \<Rightarrow>
             (case reserve_hook env t (if host = [] then ''127.0.0.1'' else host) of
                Inl e \<Rightarrow> (Inl e, Suc t)
              | Inr (addr, has_release) \<Rightarrow>
                  (Inr (addr, if has_release then Release t else NopRelease), Suc t)))
      else
        (case dynamicLoopbackBackendAddress env t bind0 of
           (Inl e, t') \<Rightarrow> (Inl e, t')
         | (Inr addr, t') \<Rightarrow> (Inr (addr, NilRelease), t')))"

subsection \<open>Static backends\<close>

text \<open>The addresses a successful allocation handed out, in the order of the backends.\<close>

fun store_all :: "backend list \<Rightarrow> string list \<Rightarrow> (string \<rightharpoonup> string) \<Rightarrow> (string \<rightharpoonup> string)" where
  "store_all (b # bs) (a # as) m = store_all bs as (storeBackendAddress m (b_Name b) a)"
| "store_all _ _ m = m"

lemma allocate_backends_ok:
  assumes "allocate_backends env t bind i bs addrs = (Inr m, t')"
  shows "\<exists>as. length as = length bs \<and> m = store_all bs as addrs \<and> t' = t + length bs
    \<and> (\<forall>j < length bs. concreteLoopbackBind env (t + j) bind = (Inr (as ! j), Suc (t + j)))"
  using assms
proof (induction bs arbitrary: t i addrs)
  case Nil
  then show ?case by simp
next
  case (Cons b bs)
  from Cons.prems obtain a u where a: "concreteLoopbackBind env t bind = (Inr a, u)"
    and rec: "allocate_backends env u bind (Suc i) bs (storeBackendAddress addrs (b_Name b) a) = (Inr m, t')"
    by (auto simp: loopbackBackendAddress_def split: prod.splits sum.splits)
  from a have u: "u = Suc t"
    by (auto simp: concreteLoopbackBind_def Let_def split: sum.splits option.splits prod.splits if_splits)
  from Cons.IH [OF rec] obtain as where as: "length as = length bs"
      "m = store_all bs as (storeBackendAddress addrs (b_Name b) a)" "t' = u + length bs"
      "\<forall>j < length bs. concreteLoopbackBind env (u + j) bind = (Inr (as ! j), Suc (u + j))"
    by blast
  have "\<forall>j < length (b # bs).
      concreteLoopbackBind env (t + j) bind = (Inr ((a # as) ! j), Suc (t + j))"
  proof (intro allI impI)
    fix j assume "j < length (b # bs)"
    then show "concreteLoopbackBind env (t + j) bind = (Inr ((a # as) ! j), Suc (t + j))"
      using a u as(4) by (cases j) auto
  qed
  with as u show ?case by (intro exI [of _ "a # as"]) simp
qed

lemma store_all_other:
  "backendLookupName k \<notin> set (lookup_names bs) \<Longrightarrow> store_all bs as m k = m k"
  by (induction bs as m rule: store_all.induct) (simp_all add: store_other_key)

lemma store_all_lookup:
  "length as = length bs \<Longrightarrow> distinct (lookup_names bs) \<Longrightarrow> j < length bs \<Longrightarrow>
   k \<in> {b_Name (bs ! j), backendLookupName (b_Name (bs ! j))} \<Longrightarrow>
   store_all bs as m k = Some (as ! j)"
proof (induction bs arbitrary: as m j)
  case Nil
  then show ?case by simp
next
  case (Cons b bs)
  then obtain a as' where as: "as = a # as'" by (cases as) auto
  show ?case
  proof (cases j)
    case 0
    with Cons.prems have "backendLookupName k \<notin> set (lookup_names bs)"
        and "k \<in> {b_Name b, backendLookupName (b_Name b)}" by auto
    then show ?thesis using as 0 by (auto simp: store_all_other)
  next
    case (Suc n)
    then show ?thesis using Cons as by simp
  qed
qed

lemma dom_store_all:
  "length as = length bs \<Longrightarrow>
   dom (store_all bs as m) = dom m \<union> b_Name ` set bs \<union> set (lookup_names bs)"
proof (induction bs arbitrary: as m)
  case Nil
  then show ?case by simp
next
  case (Cons b bs)
  then obtain a as' where "as = a # as'" by (cases as) auto
  with Cons show ?case by auto
qed

lemma loopbackBackendAddresses_ok:
  assumes "loopbackBackendAddresses env t bind bs = (Inr m, t')"
  shows "\<exists>as. length as = length bs \<and> m = store_all bs as Map.empty \<and> t' = t + length bs
    \<and> (\<forall>j < length bs. concreteLoopbackBind env (t + j)
           (if bind = [] then default_bind else bind) = (Inr (as ! j), Suc (t + j)))"
  using assms
  by (auto simp: loopbackBackendAddresses_def Let_def dest!: allocate_backends_ok
        split: if_splits sum.splits prod.splits)

text \<open>All names of one backend are stored with its address.\<close>

lemma store_all_class:
  assumes "length as = length bs" and "distinct (lookup_names bs)" and "j < length bs"
    and "backendLookupName q = backendLookupName (b_Name (bs ! j))"
  shows "store_all bs as Map.empty q = None \<or> store_all bs as Map.empty q = Some (as ! j)"
proof (cases "q \<in> dom (store_all bs as Map.empty)")
  case True
  with dom_store_all [OF assms(1)] have "q \<in> b_Name ` set bs \<or> q \<in> set (lookup_names bs)" by auto
  then obtain i where i: "i < length bs" "q = b_Name (bs ! i) \<or> q = backendLookupName (b_Name (bs ! i))"
    by (auto simp: lookup_names_def in_set_conv_nth)
  then have "lookup_names bs ! i = lookup_names bs ! j"
    using assms(3,4) by (auto simp: lookup_names_def)
  moreover have "length (lookup_names bs) = length bs" by (simp add: lookup_names_def)
  ultimately have "i = j" using nth_eq_iff_index_eq [OF assms(2), of i j] assms(3) i(1) by simp
  with i store_all_lookup [OF assms(1,2) i(1), of q] show ?thesis by auto
qed auto

lemma lookup_store_all:
  assumes "length as = length bs" and "distinct (lookup_names bs)" and "j < length bs"
    and "backendLookupName q = backendLookupName (b_Name (bs ! j))"
  shows "lookup_address (store_all bs as Map.empty) q = Inr (as ! j)"
  using store_all_class [OF assms] store_all_lookup [OF assms(1-3), of "backendLookupName q"] assms(4)
  by (auto simp: lookup_address_def)

subsection \<open>The dynamic range\<close>

lemma probe_range_clock: "snd (probe_range env host n t) \<le> t + n"
proof (induction n arbitrary: t)
  case 0
  then show ?case by simp
next
  case (Suc n)
  show ?case using Suc [of "Suc t"]
    by (auto simp: Let_def split: sum.splits option.splits)
qed

lemma probe_range_port:
  assumes "net_env_ok env"
  shows "probe_range env host n t = (Inr addr, t') \<Longrightarrow>
    \<exists>h p. plain_host h \<and> addr = JoinHostPort h (Itoa p)
      \<and> dynamicBackendPortRangeStart \<le> p \<and> p \<le> dynamicBackendPortRangeEnd"
proof (induction n arbitrary: t)
  case 0
  then show ?case by simp
next
  case (Suc n)
  let ?span = "dynamicBackendPortRangeEnd - dynamicBackendPortRangeStart + 1"
  let ?p = "dynamicBackendPortRangeStart + rand_int env t ?span"
  have r: "rand_int env t ?span < ?span" using assms by (simp add: net_env_ok_def)
  show ?case
  proof (cases "listen env t (JoinHostPort host (Itoa ?p))")
    case (Inl e)
    with Suc show ?thesis by (simp add: Let_def)
  next
    case (Inr a)
    with Suc.prems have "a = addr" by (auto simp: Let_def split: option.splits)
    moreover have "?p \<noteq> 0" by (simp add: dynamicBackendPortRangeStart_def)
    then obtain h where "plain_host h" "a = JoinHostPort h (Itoa ?p)"
      using assms Inr unfolding net_env_ok_def by blast
    ultimately show ?thesis using r
      by (intro exI [of _ h] exI [of _ ?p])
        (auto simp: dynamicBackendPortRangeStart_def dynamicBackendPortRangeEnd_def)
  qed
qed

text \<open>It gives up exactly when every one of its probes was refused (a listener that
  cannot be closed is the only other failure).\<close>

lemma probe_range_exhausted:
  "(\<forall>i < n. \<exists>e. listen env (t + i) (JoinHostPort host (Itoa (dynamicBackendPortRangeStart +
      rand_int env (t + i) (dynamicBackendPortRangeEnd - dynamicBackendPortRangeStart + 1)))) = Inl e)
   \<Longrightarrow> probe_range env host n t =
      (Inl (Wrapped (Sentinel ErrDynamicAddressExhausted)
        [Itoa dynamicBackendPortRangeStart, Itoa dynamicBackendPortRangeEnd]), t + n)"
proof (induction n arbitrary: t)
  case 0
  then show ?case by simp
next
  case (Suc n)
  have "\<forall>i < n. \<exists>e. listen env (Suc t + i) (JoinHostPort host (Itoa (dynamicBackendPortRangeStart +
      rand_int env (Suc t + i) (dynamicBackendPortRangeEnd - dynamicBackendPortRangeStart + 1)))) = Inl e"
    using Suc.prems by (metis add_Suc_right add_Suc_shift not_less_eq)
  from Suc.IH [OF this] Suc.prems [rule_format, of 0] show ?case
    by (auto simp: Let_def)
qed

lemma probe_range_succeeds:
  assumes "i < n" and "\<forall>j. listen_close env j = None"
    and "\<exists>a. listen env (t + i) (JoinHostPort host (Itoa (dynamicBackendPortRangeStart +
      rand_int env (t + i) (dynamicBackendPortRangeEnd - dynamicBackendPortRangeStart + 1)))) = Inr a"
  shows "is_ok (fst (probe_range env host n t))"
  using assms(1,3)
proof (induction n arbitrary: t i)
  case 0
  then show ?case by simp
next
  case (Suc n)
  show ?case
  proof (cases i)
    case 0
    with Suc.prems assms(2) show ?thesis by (auto simp: Let_def)
  next
    case (Suc k)
    with Suc.prems have "k < n" by simp
    have "is_ok (fst (probe_range env host n (Suc t)))"
      by (rule Suc.IH [OF \<open>k < n\<close>]) (use Suc.prems(2) Suc in simp)
    with assms(2) show ?thesis by (auto simp: Let_def split: sum.splits)
  qed
qed

section \<open>Describing the addresses\<close>

text \<open>\<open>describeBackendBinds\<close>: the first loop runs over the map in the order \<open>es\<close> and
  keeps the least name of every address, the second over the addresses in the order
  \<open>order\<close>. Both orders are arbitrary.\<close>

definition by_addr_step :: "(string \<rightharpoonup> string) \<Rightarrow> string \<times> string \<Rightarrow> (string \<rightharpoonup> string)" where
  "by_addr_step byAddr e =
     (case e of (name, addr) \<Rightarrow>
        (case byAddr addr of
           None \<Rightarrow> byAddr(addr \<mapsto> name)
         | Some existing \<Rightarrow> if name < existing then byAddr(addr \<mapsto> name) else byAddr))"

definition by_addr :: "(string \<times> string) list \<Rightarrow> (string \<rightharpoonup> string)" where
  "by_addr es = foldl by_addr_step Map.empty es"

definition describeBackendBinds :: "(string \<times> string) list \<Rightarrow> string list \<Rightarrow> string" where
  "describeBackendBinds es order =
     Join (sort (map (\<lambda>addr. the (by_addr es addr) @ ''='' @ addr) order)) '', ''"

text \<open>The name kept for an address is the least of the names the map gives it.\<close>

lemma by_addr_foldl:
  "foldl by_addr_step m es addr =
     (let ns = (case m addr of None \<Rightarrow> {} | Some n \<Rightarrow> {n}) \<union> {n. (n, addr) \<in> set es}
      in if ns = {} then None else Some (Min ns))"
proof (induction es arbitrary: m)
  case Nil
  then show ?case by (auto simp: Let_def split: option.splits)
next
  case (Cons e es)
  obtain name a where e: "e = (name, a)" by fastforce
  define rest where "rest = {n. (n, addr) \<in> set es}"
  have fin: "finite rest"
  proof -
    have "rest \<subseteq> fst ` set es" by (force simp: rest_def)
    then show ?thesis by (rule finite_subset) simp
  qed
  define cur where "cur = (case m addr of None \<Rightarrow> {} | Some n \<Rightarrow> {n})"
  define nxt where "nxt = (case by_addr_step m e addr of None \<Rightarrow> {} | Some n \<Rightarrow> {n})"
  have fc: "finite cur" "finite nxt" by (auto simp: cur_def nxt_def split: option.splits)
  have all: "cur \<union> {n. (n, addr) \<in> set (e # es)} = (if a = addr then insert name (cur \<union> rest) else cur \<union> rest)"
    by (auto simp: rest_def e)
  have IH: "foldl by_addr_step m (e # es) addr =
      (if nxt \<union> rest = {} then None else Some (Min (nxt \<union> rest)))"
    using Cons [of "by_addr_step m e"] by (simp add: Let_def nxt_def rest_def)
  show ?case
  proof (cases "a = addr")
    case False
    then have "nxt = cur" by (auto simp: nxt_def cur_def by_addr_step_def e split: option.splits)
    with IH all False show ?thesis by (simp add: Let_def cur_def)
  next
    case True
    show ?thesis
    proof (cases "m addr")
      case None
      then have "nxt = {name}" "cur = {}" using True by (simp_all add: nxt_def cur_def by_addr_step_def e)
      with IH all True show ?thesis by (simp add: Let_def cur_def)
    next
      case (Some x)
      then have nx: "nxt = {min name x}" "cur = {x}"
        using True by (auto simp: nxt_def cur_def by_addr_step_def e min_def split: option.splits)
      have "Min (nxt \<union> rest) = Min (insert name (cur \<union> rest))"
        using nx fin by (cases "rest = {}") (simp_all add: min.assoc)
      with IH all True nx show ?thesis by (simp add: Let_def cur_def)
    qed
  qed
qed

lemma by_addr_eq:
  "by_addr es addr = (if {n. (n, addr) \<in> set es} = {} then None else Some (Min {n. (n, addr) \<in> set es}))"
  using by_addr_foldl [of Map.empty es addr] by (simp add: by_addr_def Let_def)

lemma by_addr_same_set: "set es = set fs \<Longrightarrow> by_addr es = by_addr fs"
  by (intro ext) (simp add: by_addr_eq)

lemma describeBackendBinds_order:
  assumes "set es = set fs" and "mset order = mset order'"
  shows "describeBackendBinds es order = describeBackendBinds fs order'"
proof -
  have "sort (map f order) = sort (map f order')" for f :: "string \<Rightarrow> string"
    using assms(2) by (intro properties_for_sort) (simp_all add: sorted_sort mset_map)
  then show ?thesis
    unfolding describeBackendBinds_def by_addr_same_set [OF assms(1)] by metis
qed


section \<open>The properties\<close>

text \<open>C32: An address that the package allocates for a dynamic backend always has a port
  from 20000 to 29999, never one of the kernel's ephemeral range, whatever bind was
  configured, and at most 256 listeners are tried for it.\<close>

theorem dynamic_address_in_reserved_range:
  assumes "net_env_ok env" and "dynamicLoopbackBackendAddress env t bnd = (Inr addr, t')"
  shows "(\<exists>h p. plain_host h \<and> addr = JoinHostPort h (Itoa p) \<and> 20000 \<le> p \<and> p \<le> 29999) \<and> t' \<le> t + 256"
proof -
  from assms(2) obtain host where r: "probe_range env host 256 t = (Inr addr, t')"
    by (auto simp: dynamicLoopbackBackendAddress_def reserveLoopbackAddress_def Let_def
        split: sum.splits prod.splits if_splits)
  from probe_range_port [OF assms(1) r] probe_range_clock [of env host 256 t] r show ?thesis
    by (simp add: dynamicBackendPortRangeStart_def dynamicBackendPortRangeEnd_def)
qed

definition sample_net :: net_env where
  "sample_net = \<lparr>
     listen = (\<lambda>t a. case last_index_of (CHR '':'') a of
        None \<Rightarrow> Inl (LibError ''missing port in address'')
      | Some i \<Rightarrow> Inr (JoinHostPort ''127.0.0.1'' (drop (i + 1) a))),
     listen_close = (\<lambda>t. None), rand_int = (\<lambda>t n. t mod n),
     reserve_hook = (\<lambda>t h. Inl (LibError ''unset''))\<rparr>"

lemma JoinHostPort_last_colon: "\<exists>u. JoinHostPort h p = u @ CHR '':'' # p"
proof (cases "CHR '':'' \<in> set h")
  case True
  then have "JoinHostPort h p = (CHR ''['' # h @ '']'') @ CHR '':'' # p" by (simp add: JoinHostPort_def)
  then show ?thesis by blast
qed (simp add: JoinHostPort_def)

lemma sample_net_listen: "listen sample_net t (JoinHostPort h (Itoa p)) = Inr (JoinHostPort ''127.0.0.1'' (Itoa p))"
proof -
  obtain u where u: "JoinHostPort h (Itoa p) = u @ CHR '':'' # Itoa p" using JoinHostPort_last_colon by blast
  have "last_index_of (CHR '':'') (u @ CHR '':'' # Itoa p) = Some (length u)"
    by (rule last_index_of_split) (rule Itoa_plain)
  then show ?thesis unfolding u by (simp add: sample_net_def)
qed

lemma sample_net_ok: "net_env_ok sample_net"
proof -
  have "plain_host ''127.0.0.1''" by (simp add: plain_host_def)
  then have "\<exists>h'. plain_host h' \<and> a = JoinHostPort h' (Itoa p)"
    if "listen sample_net t (JoinHostPort h (Itoa p)) = Inr a" for t h p a
    using that unfolding sample_net_listen by blast
  moreover have "0 < n \<longrightarrow> rand_int sample_net t n < n" for t n by (simp add: sample_net_def)
  ultimately show ?thesis unfolding net_env_ok_def by blast
qed

lemma sample_dynamic_address:
  "dynamicLoopbackBackendAddress sample_net 7 [] = (Inr (JoinHostPort ''127.0.0.1'' (Itoa 20007)), 8)"
proof -
  have split: "SplitHostPort default_bind = Inr (''127.0.0.1'', ''0'')" by code_simp
  have other: "listen_close sample_net t = None" "rand_int sample_net t n = t mod n" for t n
    by (simp_all add: sample_net_def)
  have "probe_range sample_net ''127.0.0.1'' (Suc 255) 7 = (Inr (JoinHostPort ''127.0.0.1'' (Itoa 20007)), 8)"
    by (subst probe_range.simps)
      (simp add: sample_net_listen other dynamicBackendPortRangeStart_def dynamicBackendPortRangeEnd_def Let_def)
  then show ?thesis
    by (simp add: dynamicLoopbackBackendAddress_def reserveLoopbackAddress_def split)
qed

lemma dynamic_address_in_reserved_range_witness:
  "\<exists>h p. plain_host h \<and> JoinHostPort ''127.0.0.1'' (Itoa 20007) = JoinHostPort h (Itoa p) \<and> 20000 \<le> p \<and> p \<le> 29999"
  using dynamic_address_in_reserved_range [OF sample_net_ok sample_dynamic_address] by blast

text \<open>The addresses named in a readiness error do not depend on the order in which Go
  happens to visit its maps: any two runs over the same addresses describe them with the
  same text.\<close>

lemma described_binds_deterministic:
  assumes "enumerates es m" and "enumerates es' m"
    and "distinct order" and "distinct order'" and "set order = ran m" and "set order' = ran m"
  shows "describeBackendBinds es order = describeBackendBinds es' order'"
proof -
  have "set es = set es'" by (rule enumerates_same_set [OF assms(1,2)])
  moreover have "mset order = mset order'" using assms(3-6) by (simp add: set_eq_iff_mset_eq_distinct [symmetric])
  ultimately show ?thesis by (rule describeBackendBinds_order)
qed

lemma described_binds_deterministic_witness:
  "describeBackendBinds [(''Lobby'', ''a''), (''lobby'', ''a'')] [''a'']
     = describeBackendBinds [(''lobby'', ''a''), (''Lobby'', ''a'')] [''a'']"
proof (rule described_binds_deterministic [of _ "[''Lobby'' \<mapsto> ''a'', ''lobby'' \<mapsto> ''a'']"])
  show "enumerates [(''Lobby'', ''a''), (''lobby'', ''a'')] [''Lobby'' \<mapsto> ''a'', ''lobby'' \<mapsto> ''a'']"
    "enumerates [(''lobby'', ''a''), (''Lobby'', ''a'')] [''Lobby'' \<mapsto> ''a'', ''lobby'' \<mapsto> ''a'']"
    by (auto simp: enumerates_def fun_eq_iff)
qed (auto simp: ran_def)

end
