(* ===== verification/Subprocess.thy ===== *)
theory Subprocess
  imports Addresses
begin

text \<open>
  The state of the subprocess runner and the critical sections of its operations
  (\<^verbatim>\<open>subprocess.go\<close>). Every definition here is one section of code that runs
  under \<^verbatim>\<open>r.mu\<close>, or a piece of clean-up that follows one; how the sections of
  concurrent calls interleave is the subject of the theory \<open>Interleaving\<close>.

  The fields the Go code keeps as possibly nil maps (\<open>dynamic\<close>, \<open>adding\<close>,
  \<open>pending\<close>, \<open>reserving\<close>) are created before they are written there; a nil map and
  an empty one are the same here. A \<^verbatim>\<open>*subprocessBackendProcess\<close> is a
  \<open>proc\<close>; pointer equality is equality of the records, whose \<open>p_id\<close> every started
  process gets afresh. What happens outside the runner is part of the same state: the processes
  that are running (\<open>live\<close>), the temporary configuration files that exist
  (\<open>files\<close>) and the calls of the embedder's release functions (\<open>released\<close>).
\<close>

record proc =
  p_id :: nat
  p_name :: string
  p_addr :: string
  p_configPath :: string
  p_release :: release

record runner =
  healthy :: bool
  backends :: "string \<rightharpoonup> string"
  bin :: string
  r_opts :: options
  dynamic :: "string \<rightharpoonup> proc"
  adding :: "string set"
  pending :: "string \<rightharpoonup> proc"
  reserving :: "string \<rightharpoonup> string"
  live :: "nat set"
  files :: "string set"
  released :: "nat list"
  next_id :: nat
  clock :: nat

section \<open>Addresses and reservations\<close>

text \<open>The embedder's release function sits behind a \<^verbatim>\<open>sync.Once\<close>.\<close>

definition call_release :: "release \<Rightarrow> 'a runner_scheme \<Rightarrow> 'a runner_scheme" where
  "call_release rel r =
     (case rel of
        Release i \<Rightarrow> if i \<in> set (released r) then r else r\<lparr>released := released r @ [i]\<rparr>
      | _ \<Rightarrow> r)"

definition releaseAddress :: "proc \<Rightarrow> 'a runner_scheme \<Rightarrow> 'a runner_scheme" where
  "releaseAddress p r = (if p_release p = NilRelease then r else call_release (p_release p) r)"

text \<open>\<open>addressOwnerLocked\<close>, with the orders in which its two loops visit the maps.\<close>

definition addressOwnerLocked ::
  "(string \<times> string) list \<Rightarrow> (string \<times> proc) list \<Rightarrow> 'a runner_scheme \<Rightarrow> string \<Rightarrow> string option" where
  "addressOwnerLocked bs ps r addr =
     (case find (\<lambda>(name, published). published = addr) bs of
        Some (name, _) \<Rightarrow> Some name
      | None \<Rightarrow>
          (case find (\<lambda>(key, p). p_addr p = addr) ps of
             Some (key, _) \<Rightarrow> Some key
           | None \<Rightarrow> reserving r addr))"

text \<open>\<open>reserveDynamicAddressLocked\<close>: up to 8 allocations; one that another backend
  already owns is released and retried. \<open>bs\<close> and \<open>ps\<close> give the orders in which the
  owner check of each attempt visits the maps.\<close>

fun reserve_loop ::
  "net_env \<Rightarrow> (nat \<Rightarrow> (string \<times> string) list) \<Rightarrow> (nat \<Rightarrow> (string \<times> proc) list) \<Rightarrow> nat
    \<Rightarrow> string \<Rightarrow> string \<Rightarrow> string \<Rightarrow> string \<Rightarrow> 'a runner_scheme
    \<Rightarrow> (go_error, string \<times> release) result \<times> 'a runner_scheme" where
  "reserve_loop env bs ps 0 key bind lastAddr lastOwner r =
     (Inl (Wrapped (Sentinel ErrDynamicAddressExhausted) [lastAddr, lastOwner]), r)"
| "reserve_loop env bs ps (Suc n) key bind lastAddr lastOwner r =
     (case allocateBackendAddressLocked env (clock r) (o_ReserveHook (r_opts r)) bind of
        (Inl e, t) \<Rightarrow> (Inl e, r\<lparr>clock := t\<rparr>)
      | (Inr (addr, rel), t) \<Rightarrow>
          (let r1 = r\<lparr>clock := t\<rparr> in
           case addressOwnerLocked (bs n) (ps n) r1 addr of
             Some owner \<Rightarrow>
               if owner \<noteq> key then
                 reserve_loop env bs ps n key bind addr owner (call_release rel r1)
               else (Inr (addr, rel), r1\<lparr>reserving := (reserving r1)(addr \<mapsto> key)\<rparr>)
           | None \<Rightarrow> (Inr (addr, rel), r1\<lparr>reserving := (reserving r1)(addr \<mapsto> key)\<rparr>)))"

definition reserveDynamicAddressLocked ::
  "net_env \<Rightarrow> (nat \<Rightarrow> (string \<times> string) list) \<Rightarrow> (nat \<Rightarrow> (string \<times> proc) list)
    \<Rightarrow> string \<Rightarrow> string \<Rightarrow> 'a runner_scheme \<Rightarrow> (go_error, string \<times> release) result \<times> 'a runner_scheme" where
  "reserveDynamicAddressLocked env bs ps key bind r = reserve_loop env bs ps 8 key bind [] [] r"

section \<open>Stopping one runtime\<close>

text \<open>How \<open>stopSubprocessBackend\<close> can end: the process had exited before (with the
  error of its \<^verbatim>\<open>Wait\<close>), the termination signal could not be sent, it exited after
  the signal, or it was killed because the context or the timeout ran out first, or the
  kill failed.\<close>

datatype stop_outcome =
    AlreadyExited "go_error option"
  | SignalFailed go_error
  | ExitedAfterSignal "go_error option"
  | KilledOnContext go_error
  | KilledOnTimeout
  | KillFailed go_error

definition isExpectedProcessExit :: "go_error option \<Rightarrow> bool" where
  "isExpectedProcessExit err = (case err of None \<Rightarrow> True | Some e \<Rightarrow> is_exit_error e)"

fun stop_error :: "stop_outcome \<Rightarrow> go_error option" where
  "stop_error (AlreadyExited err) = (if isExpectedProcessExit err then None else err)"
| "stop_error (SignalFailed e) = Some e"
| "stop_error (ExitedAfterSignal err) = (if isExpectedProcessExit err then None else err)"
| "stop_error (KilledOnContext e) = Some e"
| "stop_error KilledOnTimeout = None"
| "stop_error (KillFailed e) = Some e"

fun stop_ends_process :: "stop_outcome \<Rightarrow> bool" where
  "stop_ends_process (SignalFailed e) = False"
| "stop_ends_process (KillFailed e) = False"
| "stop_ends_process _ = True"

text \<open>The deferred function removes the configuration and releases the address on every
  path out.\<close>

definition stopSubprocessBackend ::
  "stop_outcome \<Rightarrow> proc \<Rightarrow> 'a runner_scheme \<Rightarrow> go_error option \<times> 'a runner_scheme" where
  "stopSubprocessBackend out p r =
     (let r1 = (if stop_ends_process out then r\<lparr>live := live r - {p_id p}\<rparr> else r);
          r2 = r1\<lparr>files := files r1 - {p_configPath p}\<rparr>
      in (stop_error out, releaseAddress p r2))"

section \<open>The sections of addBackend\<close>

text \<open>The admission section: the key must not be published, dynamic, being added or
  pending.\<close>

definition addBackend_begin :: "string \<Rightarrow> 'a runner_scheme \<Rightarrow> (go_error, 'a runner_scheme) result" where
  "addBackend_begin name r =
     (if \<not> healthy r \<or> bin r = [] then Inl (Sentinel ErrNotStarted)
      else (let key = backendLookupName name;
                dup = Inl (Wrapped (Sentinel ErrDuplicateBackend) [name]) in
        if key \<in> dom (backends r) then dup
        else if key \<in> dom (dynamic r) then dup
        else if key \<in> adding r then dup
        else if key \<in> dom (pending r) then dup
        else Inr (r\<lparr>adding := insert key (adding r)\<rparr>)))"

definition cleanupAdding :: "string \<Rightarrow> 'a runner_scheme \<Rightarrow> 'a runner_scheme" where
  "cleanupAdding key r = r\<lparr>adding := adding r - {key}\<rparr>"

definition releaseReservation ::
  "string \<Rightarrow> string \<Rightarrow> release \<Rightarrow> 'a runner_scheme \<Rightarrow> 'a runner_scheme" where
  "releaseReservation key addr rel r =
     (let r1 = (if reserving r addr = Some key
                then r\<lparr>reserving := map_remove (reserving r) addr\<rparr> else r)
      in if rel = NilRelease then r1 else call_release rel r1)"

text \<open>The section that starts the runtime: \<open>Inl\<close> with the error when the runner went
  down in the meantime (\<open>True\<close>: before the start was tried) or the start failed,
  \<open>Inr\<close> with the process it made pending.\<close>

definition addBackend_start ::
  "go_error option \<Rightarrow> string \<Rightarrow> string \<Rightarrow> release \<Rightarrow> string \<Rightarrow> 'a runner_scheme
    \<Rightarrow> (bool \<times> go_error, proc) result \<times> 'a runner_scheme" where
  "addBackend_start start_err name addr rel cfg r =
     (let key = backendLookupName name; r1 = cleanupAdding key r in
      if \<not> healthy r \<or> bin r = [] then (Inl (True, Sentinel ErrNotStarted), r1)
      else (case start_err of
        Some e \<Rightarrow> (Inl (False, e), r1)
      | None \<Rightarrow>
          (let p = \<lparr>p_id = next_id r, p_name = name, p_addr = addr, p_configPath = cfg,
                    p_release = rel\<rparr>
           in (Inr p, r1\<lparr>next_id := Suc (next_id r), live := insert (next_id r) (live r),
                         pending := (pending r)(key \<mapsto> p)\<rparr>))))"

definition unpend :: "string \<Rightarrow> proc \<Rightarrow> 'a runner_scheme \<Rightarrow> 'a runner_scheme" where
  "unpend key p r =
     (if pending r key = Some p
      then r\<lparr>pending := map_remove (pending r) key\<rparr> else r)"

text \<open>\<open>listenerOwned\<close> is the verdict of \<^verbatim>\<open>listenerOwnedByPID\<close>: \<open>None\<close> when
  ownership could not be established.\<close>

definition dynamicAddressOwned :: "proc option \<Rightarrow> bool option \<Rightarrow> bool" where
  "dynamicAddressOwned po verdict =
     (case po of None \<Rightarrow> False
      | Some p \<Rightarrow> (case verdict of None \<Rightarrow> True | Some owned \<Rightarrow> owned))"

text \<open>The publishing section: \<open>False\<close> when the runner went down or the pending entry is
  no longer this runtime's, so that it must not be published.\<close>

definition addBackend_publish :: "string \<Rightarrow> proc \<Rightarrow> 'a runner_scheme \<Rightarrow> bool \<times> 'a runner_scheme" where
  "addBackend_publish name p r =
     (let key = backendLookupName name in
      if \<not> healthy r \<or> bin r = [] then (False, unpend key p r)
      else if pending r key \<noteq> Some p then (False, r)
      else
        (let r1 = r\<lparr>pending := map_remove (pending r) key\<rparr>;
             r2 = (if reserving r1 (p_addr p) = Some key
                   then r1\<lparr>reserving := map_remove (reserving r1) (p_addr p)\<rparr> else r1)
         in (True, r2\<lparr>dynamic := (dynamic r2)(key \<mapsto> p),
                      backends := storeBackendAddress (backends r2) name (p_addr p)\<rparr>)))"

section \<open>Removing, stopping, exits, lookups\<close>

definition isHealthy :: "'a runner_scheme \<Rightarrow> bool" where
  "isHealthy r = healthy r"

definition backendAddress :: "'a runner_scheme \<Rightarrow> string \<Rightarrow> (go_error, string) result" where
  "backendAddress r name = lookup_address (backends r) name"

definition unpublish :: "string \<Rightarrow> proc \<Rightarrow> 'a runner_scheme \<Rightarrow> 'a runner_scheme" where
  "unpublish key p r =
     r\<lparr>dynamic := map_remove (dynamic r) key,
       backends := map_remove (map_remove (backends r) (p_name p)) (backendLookupName (p_name p))\<rparr>"

text \<open>\<open>removeBackend\<close> up to the call of \<open>stopSubprocessBackend\<close>: the runtime to
  stop, or the error.\<close>

definition removeBackend_begin ::
  "string \<Rightarrow> 'a runner_scheme \<Rightarrow> (go_error, proc) result \<times> 'a runner_scheme" where
  "removeBackend_begin name r =
     (let key = backendLookupName name in
      case dynamic r key of
        None \<Rightarrow>
          (case backendAddress r name of
             Inr _ \<Rightarrow> (Inl (Sentinel ErrDynamicBackendsUnsupported), r)
           | Inl _ \<Rightarrow> (Inl (Sentinel ErrBackendNotFound), r))
      | Some p \<Rightarrow> (Inr p, unpublish key p r))"

definition removeBackend ::
  "stop_outcome \<Rightarrow> string \<Rightarrow> 'a runner_scheme \<Rightarrow> go_error option \<times> 'a runner_scheme" where
  "removeBackend out name r =
     (case removeBackend_begin name r of
        (Inl e, r1) \<Rightarrow> (Some e, r1)
      | (Inr p, r1) \<Rightarrow> stopSubprocessBackend out p r1)"

text \<open>The section of \<open>stopDynamicBackends\<close>, over the orders in which it visits the two
  maps; the processes it collected are stopped one after the other afterwards.\<close>

definition stopDynamicBackends_collect ::
  "(string \<times> proc) list \<Rightarrow> (string \<times> proc) list \<Rightarrow> 'a runner_scheme \<Rightarrow> proc list \<times> 'a runner_scheme" where
  "stopDynamicBackends_collect ds ps r =
     (map snd ds @ map snd ps,
      (foldl (\<lambda>r (key, p). unpublish key p r) r ds)
        \<lparr>pending := foldl (\<lambda>m (key, p). map_remove m key) (pending r) ps,
         adding := {}, reserving := Map.empty\<rparr>)"

fun stop_all :: "stop_outcome list \<Rightarrow> proc list \<Rightarrow> 'a runner_scheme \<Rightarrow> 'a runner_scheme" where
  "stop_all (out # outs) (p # ps) r = stop_all outs ps (snd (stopSubprocessBackend out p r))"
| "stop_all _ _ r = r"

definition stopDynamicBackends ::
  "stop_outcome list \<Rightarrow> (string \<times> proc) list \<Rightarrow> (string \<times> proc) list
    \<Rightarrow> 'a runner_scheme \<Rightarrow> 'a runner_scheme" where
  "stopDynamicBackends outs ds ps r =
     (case stopDynamicBackends_collect ds ps r of (procs, r1) \<Rightarrow> stop_all outs procs r1)"

text \<open>\<open>dynamicBackendExited\<close>, which runs when a published runtime has exited by
  itself.\<close>

definition dynamicBackendExited :: "string \<Rightarrow> proc \<Rightarrow> 'a runner_scheme \<Rightarrow> 'a runner_scheme" where
  "dynamicBackendExited key p r =
     (let r1 = (if dynamic r key = Some p then unpublish key p r else r);
          r2 = unpend key p r1
      in r2\<lparr>files := files r2 - {p_configPath p}\<rparr>)"

end
