(* ===== verification/ListenerOwner.thy ===== *)
theory ListenerOwner
  imports Subprocess
begin

text \<open>
  Who owns a listening socket (\<^verbatim>\<open>listener_owner_linux.go\<close>): the inodes of the
  LISTEN sockets on a port, read from the text of \<^verbatim>\<open>/proc/net/tcp\<close> and
  \<^verbatim>\<open>/proc/net/tcp6\<close>, are compared with the links in \<^verbatim>\<open>/proc/<pid>/fd\<close>. What
  those files hold is an argument. On other systems (\<^verbatim>\<open>listener_owner_other.go\<close>)
  ownership is never known.
\<close>

section \<open>The model\<close>

text \<open>The contents of the two tables (\<open>None\<close>: cannot be opened), and what the links of a
  process's descriptors point to (\<open>None\<close>: the directory cannot be read, or one link
  cannot).\<close>

record proc_fs =
  pf_tables :: "string option list"
  pf_fds :: "int \<Rightarrow> string option list option"

definition newline :: char where "newline = CHR 0x0A"
definition carriage_return :: char where "carriage_return = CHR 0x0D"

text \<open>\<^verbatim>\<open>bufio.ScanLines\<close>: no empty last line, no carriage return at the end of a
  line.\<close>

definition scan_lines :: "string \<Rightarrow> string list" where
  "scan_lines s =
     (let ls = split_on newline s;
          ls' = (if last ls = [] then butlast ls else ls)
      in map (\<lambda>l. TrimSuffix l [carriage_return]) ls')"

text \<open>One row of the table: the inode, if it is a LISTEN socket on the port.\<close>

definition listen_inode :: "int \<Rightarrow> string \<Rightarrow> string option" where
  "listen_inode port line =
     (let fields = Fields line in
      if length fields < 10 \<or> fields ! 3 \<noteq> ''0A'' then None
      else (let local = fields ! 1 in
        case last_index_of (CHR '':'') local of
          None \<Rightarrow> None
        | Some idx \<Rightarrow>
            (case ParseInt (drop (idx + 1) local) 16 32 of
               None \<Rightarrow> None
             | Some got \<Rightarrow> if got \<noteq> port then None else Some (fields ! 9))))"

text \<open>The first line of a table is its heading.\<close>

definition table_inodes :: "int \<Rightarrow> string \<Rightarrow> string list" where
  "table_inodes port content = List.map_filter (listen_inode port) (drop 1 (scan_lines content))"

definition listenSocketInodes :: "string option list \<Rightarrow> int \<Rightarrow> string list \<times> bool" where
  "listenSocketInodes tables port =
     (concat (map (\<lambda>t. case t of None \<Rightarrow> [] | Some content \<Rightarrow> table_inodes port content) tables),
      list_ex (\<lambda>t. t \<noteq> None) tables)"

definition socket_link :: "string \<Rightarrow> string" where
  "socket_link inode = ''socket:['' @ inode @ '']''"

text \<open>The result is the pair of \<open>owned\<close> and \<open>known\<close>.\<close>

definition listenerOwnedByPID :: "proc_fs \<Rightarrow> string \<Rightarrow> int \<Rightarrow> bool \<times> bool" where
  "listenerOwnedByPID fs addr pid =
     (if pid \<le> 0 then (False, False)
      else case SplitHostPort addr of
        Inl e \<Rightarrow> (False, False)
      | Inr (_, portStr) \<Rightarrow>
          (case Atoi portStr of
             None \<Rightarrow> (False, False)
           | Some port \<Rightarrow>
               (case listenSocketInodes (pf_tables fs) port of
                  (inodes, ok) \<Rightarrow>
                    if \<not> ok then (False, False)
                    else if inodes = [] then (False, True)
                    else (case pf_fds fs pid of
                      None \<Rightarrow> (False, False)
                    | Some links \<Rightarrow>
                        (list_ex (\<lambda>l. case l of None \<Rightarrow> False
                           | Some target \<Rightarrow> list_ex (\<lambda>inode. target = socket_link inode) inodes) links,
                         True)))))"

text \<open>The verdict in the form \<open>dynamicAddressOwned\<close> takes it.\<close>

definition owner_verdict :: "bool \<times> bool \<Rightarrow> bool option" where
  "owner_verdict r = (case r of (owned, known) \<Rightarrow> if known then Some owned else None)"

definition listenerOwnedByPID_other :: "string \<Rightarrow> int \<Rightarrow> bool \<times> bool" where
  "listenerOwnedByPID_other addr pid = (False, False)"

section \<open>Rows of the table\<close>

text \<open>The last four upper-case hexadecimal digits of a port, as the kernel prints them.\<close>

definition upper_hex :: "nat \<Rightarrow> char" where
  "upper_hex d = char_of (if d < 10 then 48 + d else 55 + d)"

definition hex4 :: "nat \<Rightarrow> string" where
  "hex4 p = [upper_hex (p div 4096 mod 16), upper_hex (p div 256 mod 16), upper_hex (p div 16 mod 16),
     upper_hex (p mod 16)]"

text \<open>A row for a socket in state \<open>st\<close> on local address \<open>host\<close> (hexadecimal) and port
  \<open>port\<close>.\<close>

record socket =
  so_host :: string
  so_port :: nat
  so_state :: string
  so_inode :: string

definition socket_row :: "socket \<Rightarrow> string" where
  "socket_row so = Join [''0:'', so_host so @ '':'' @ hex4 (so_port so), ''00000000:0000'', so_state so,
     ''00000000:00000000'', ''00:00000000'', ''00000000'', ''1000'', ''0'', so_inode so, ''1''] '' ''"

definition socket_ok :: "socket \<Rightarrow> bool" where
  "socket_ok so \<longleftrightarrow> word_ok (so_host so) \<and> word_ok (so_state so) \<and> word_ok (so_inode so) \<and> so_port so < 65536"

lemma upper_hex_props:
  assumes "d < 16"
  shows "digit_val (upper_hex d) = Some d" and "\<not> is_space (upper_hex d)"
    and "upper_hex d \<noteq> CHR '':''" and "upper_hex d \<noteq> CHR ''-''" and "upper_hex d \<noteq> CHR ''+''"
proof -
  have d: "d \<in> {0, 1, 2, 3, 4, 5, 6, 7, 8, 9, 10, 11, 12, 13, 14, 15}" using assms by simp arith
  then show "digit_val (upper_hex d) = Some d" by (auto simp: digit_val_def upper_hex_def)
  from d show "\<not> is_space (upper_hex d)" "upper_hex d \<noteq> CHR '':''" "upper_hex d \<noteq> CHR ''-''"
    "upper_hex d \<noteq> CHR ''+''"
    by (auto simp: is_space_def upper_hex_def char_of_def)
qed

lemma hex4_parse: "p < 65536 \<Longrightarrow> ParseInt (hex4 p) 16 32 = Some (int p)"
proof -
  assume p: "p < 65536"
  let ?a = "p div 4096 mod 16" and ?b = "p div 256 mod 16" and ?c = "p div 16 mod 16" and ?d = "p mod 16"
  have lt: "?a < 16" "?b < 16" "?c < 16" "?d < 16" by simp_all
  have v: "digit_val (upper_hex ?a) = Some ?a" "digit_val (upper_hex ?b) = Some ?b"
      "digit_val (upper_hex ?c) = Some ?c" "digit_val (upper_hex ?d) = Some ?d"
    by (rule upper_hex_props(1), simp)+
  have q: "p div 256 = p div 16 div 16" "p div 4096 = p div 16 div 16 div 16"
    by (simp_all add: div_mult2_eq [symmetric])
  have "p div 16 div 16 div 16 < 16" using p by (simp add: div_mult2_eq [symmetric])
  then have "((?a * 16 + ?b) * 16 + ?c) * 16 + ?d = p"
    unfolding q by (simp only: mod_less div_mult_mod_eq)
  moreover have "parse_nat 16 (hex4 p) = Some (((?a * 16 + ?b) * 16 + ?c) * 16 + ?d)"
    unfolding hex4_def parse_nat_def by (simp only: parse_digits.simps v lt option.case if_True list.distinct if_False mult_0 add_0)
  ultimately have pn: "parse_nat 16 (hex4 p) = Some p" by (simp only:)
  have "hd (hex4 p) \<noteq> CHR ''-''" "hd (hex4 p) \<noteq> CHR ''+''"
    using upper_hex_props(4,5) [OF lt(1)] by (simp_all add: hex4_def)
  then show ?thesis using p by (simp add: ParseInt_def pn)
qed

lemma hex4_word: "\<forall>c \<in> set (hex4 p). \<not> is_space c \<and> c \<noteq> CHR '':''"
  by (simp add: hex4_def upper_hex_props(2,3))

lemma no_space_colon: "\<not> is_space (CHR '':'')"
  by code_simp

lemma const_words:
  "word_ok ''0:''" "word_ok ''00000000:0000''" "word_ok ''00000000:00000000''" "word_ok ''00:00000000''"
  "word_ok ''00000000''" "word_ok ''1000''" "word_ok ''0''" "word_ok ''1''"
  by code_simp+

lemma socket_row_inode:
  assumes "socket_ok so"
  shows "listen_inode port (socket_row so) =
    (if so_state so = ''0A'' \<and> int (so_port so) = port then Some (so_inode so) else None)"
proof -
  let ?local = "so_host so @ '':'' @ hex4 (so_port so)"
  let ?ws = "[''0:'', ?local, ''00000000:0000'', so_state so, ''00000000:00000000'', ''00:00000000'',
     ''00000000'', ''1000'', ''0'', so_inode so, ''1'']"
  have "word_ok ?local"
    using assms hex4_word [of "so_port so"] no_space_colon by (auto simp: socket_ok_def word_ok_def)
  then have "\<forall>w \<in> set ?ws. word_ok w"
    using assms by (simp add: socket_ok_def const_words)
  then have f: "Fields (socket_row so) = ?ws" unfolding socket_row_def by (rule Fields_Join)
  have "last_index_of (CHR '':'') (so_host so @ CHR '':'' # hex4 (so_port so)) = Some (length (so_host so))"
    using hex4_word by (intro last_index_of_split) blast
  then show ?thesis
    using assms hex4_parse [of "so_port so"] by (auto simp: listen_inode_def f Let_def socket_ok_def)
qed


section \<open>Whole tables\<close>

definition table_text :: "string \<Rightarrow> socket list \<Rightarrow> string" where
  "table_text heading sos = concat (map (\<lambda>l. l @ [newline]) (heading # map socket_row sos))"

definition plain_line :: "string \<Rightarrow> bool" where
  "plain_line l \<longleftrightarrow> newline \<notin> set l \<and> carriage_return \<notin> set l"

lemma split_lines:
  "\<forall>l \<in> set ls. newline \<notin> set l \<Longrightarrow> split_on newline (concat (map (\<lambda>l. l @ [newline]) ls)) = ls @ [[]]"
proof (induction ls)
  case Nil
  then show ?case by (simp add: split_on_def)
next
  case (Cons l ls)
  then show ?case using split_on_append [of newline l] by simp
qed

lemma TrimSuffix_other: "c \<notin> set l \<Longrightarrow> TrimSuffix l [c] = l"
  by (auto simp: TrimSuffix_def HasSuffix_iff)

lemma scan_table:
  assumes "\<forall>l \<in> set ls. plain_line l"
  shows "scan_lines (concat (map (\<lambda>l. l @ [newline]) ls)) = ls"
proof -
  have "map (\<lambda>l. TrimSuffix l [carriage_return]) ls = ls"
    using assms by (intro map_idI) (simp add: plain_line_def TrimSuffix_other)
  then show ?thesis
    using assms split_lines [of ls] by (simp add: scan_lines_def plain_line_def Let_def)
qed

lemma Join_chars: "set (Join ws sep) \<subseteq> \<Union> (set ` set ws) \<union> set sep"
  by (induction ws sep rule: Join.induct) auto

lemma word_plain: "word_ok w \<Longrightarrow> plain_line w"
proof -
  have "is_space newline" "is_space carriage_return" by code_simp+
  then show "word_ok w \<Longrightarrow> plain_line w" by (auto simp: word_ok_def plain_line_def)
qed

lemma socket_row_plain:
  assumes "socket_ok so"
  shows "plain_line (socket_row so)"
proof -
  let ?local = "so_host so @ '':'' @ hex4 (so_port so)"
  have "word_ok ?local"
    using assms hex4_word [of "so_port so"] no_space_colon by (auto simp: socket_ok_def word_ok_def)
  then have "\<forall>w \<in> set [''0:'', ?local, ''00000000:0000'', so_state so, ''00000000:00000000'', ''00:00000000'',
     ''00000000'', ''1000'', ''0'', so_inode so, ''1'']. plain_line w"
    using assms word_plain by (simp add: socket_ok_def const_words)
  moreover have "plain_line '' ''" by code_simp
  ultimately show ?thesis
    unfolding socket_row_def plain_line_def using Join_chars by fastforce
qed

lemma table_inodes_text:
  assumes "plain_line heading" and "\<forall>so \<in> set sos. socket_ok so"
  shows "table_inodes port (table_text heading sos) =
    map so_inode (filter (\<lambda>so. so_state so = ''0A'' \<and> int (so_port so) = port) sos)"
proof -
  have "\<forall>l \<in> set (heading # map socket_row sos). plain_line l"
    using assms socket_row_plain by auto
  then have "scan_lines (table_text heading sos) = heading # map socket_row sos"
    unfolding table_text_def by (rule scan_table)
  moreover have "List.map_filter (listen_inode port) (map socket_row sos)
      = map so_inode (filter (\<lambda>so. so_state so = ''0A'' \<and> int (so_port so) = port) sos)"
    using assms(2) by (induction sos) (auto simp: map_filter_simps socket_row_inode)
  ultimately show ?thesis by (simp add: table_inodes_def)
qed

text \<open>A host: its two tables and the links of one process.\<close>

definition host_fs :: "string \<Rightarrow> socket list \<Rightarrow> socket list \<Rightarrow> int \<Rightarrow> string option list \<Rightarrow> proc_fs" where
  "host_fs heading v4 v6 pid links =
     \<lparr>pf_tables = [Some (table_text heading v4), Some (table_text heading v6)],
      pf_fds = (\<lambda>i. if i = pid then Some links else None)\<rparr>"

definition holds_listener :: "socket list \<Rightarrow> string option list \<Rightarrow> nat \<Rightarrow> bool" where
  "holds_listener sos links p \<longleftrightarrow>
     list_ex (\<lambda>so. so_state so = ''0A'' \<and> so_port so = p \<and> Some (socket_link (so_inode so)) \<in> set links) sos"

lemma owned_iff:
  assumes "plain_line heading" and "list_all socket_ok (v4 @ v6)" and "plain_host h" and "p < 65536" and "0 < pid"
  shows "listenerOwnedByPID (host_fs heading v4 v6 pid links) (JoinHostPort h (Itoa p)) pid
    = (holds_listener (v4 @ v6) links p, True)"
proof -
  have at: "Atoi (Itoa p) = Some (int p)" using assms(4) by (intro Atoi_Itoa) simp
  let ?sel = "\<lambda>sos. map so_inode (filter (\<lambda>so. so_state so = ''0A'' \<and> int (so_port so) = int p) sos)"
  have ino: "listenSocketInodes (pf_tables (host_fs heading v4 v6 pid links)) (int p) = (?sel v4 @ ?sel v6, True)"
    using assms(1,2) by (simp add: listenSocketInodes_def host_fs_def table_inodes_text list_all_iff)
  have "list_ex (\<lambda>l. case l of None \<Rightarrow> False
      | Some target \<Rightarrow> list_ex (\<lambda>inode. target = socket_link inode) (?sel v4 @ ?sel v6)) links
      \<longleftrightarrow> holds_listener (v4 @ v6) links p"
    by (auto simp: holds_listener_def list_ex_iff split: option.splits)
  moreover have "?sel v4 @ ?sel v6 = [] \<Longrightarrow> \<not> holds_listener (v4 @ v6) links p"
    by (auto simp: holds_listener_def list_ex_iff filter_empty_conv)
  moreover have "pf_fds (host_fs heading v4 v6 pid links) pid = Some links" by (simp add: host_fs_def)
  ultimately show ?thesis
    using assms(5) by (auto simp: listenerOwnedByPID_def SplitHostPort_JoinHostPort [OF assms(3) plain_port_Itoa] at ino)
qed

section \<open>The properties\<close>

text \<open>C16: On Linux, ownership is known whenever the socket tables and the process's
  descriptors can be read, and the process is found to own the address exactly when one of
  its descriptors is a socket in state LISTEN on the address's port, in either table.\<close>

theorem listener_owner_exact:
  assumes "plain_line heading" and "list_all socket_ok (v4 @ v6)" and "plain_host h" and "p < 65536" and "0 < pid"
  shows "dynamicAddressOwned po (owner_verdict (listenerOwnedByPID (host_fs heading v4 v6 pid links)
      (JoinHostPort h (Itoa p)) pid)) \<longleftrightarrow> po \<noteq> None \<and> holds_listener (v4 @ v6) links p"
  by (simp add: owned_iff [OF assms] owner_verdict_def dynamicAddressOwned_def split: option.split)

definition foreign_socket :: socket where
  "foreign_socket = \<lparr>so_host = ''0100007F'', so_port = 25001, so_state = ''0A'', so_inode = ''4711''\<rparr>"

definition own_socket :: socket where
  "own_socket = \<lparr>so_host = ''0200007F'', so_port = 25001, so_state = ''0A'', so_inode = ''4712''\<rparr>"

lemma sample_sockets_ok: "list_all socket_ok ([foreign_socket, own_socket] @ [])" "plain_line ''sl''"
    "plain_host ''127.0.0.1''"
proof -
  have "word_ok ''0100007F''" "word_ok ''0200007F''" "word_ok ''0A''" "word_ok ''4711''" "word_ok ''4712''"
    by code_simp+
  then show "list_all socket_ok ([foreign_socket, own_socket] @ [])"
    by (simp add: socket_ok_def foreign_socket_def own_socket_def)
  show "plain_line ''sl''" "plain_host ''127.0.0.1''" by code_simp+
qed

lemma listener_owner_exact_witness:
  "\<exists>p. \<not> dynamicAddressOwned (Some p) (owner_verdict (listenerOwnedByPID
      (host_fs ''sl'' [foreign_socket, own_socket] [] 77 []) (JoinHostPort ''127.0.0.1'' (Itoa 25001)) 77))"
proof -
  have n: "(25001 :: nat) < 65536" "0 < (77 :: int)" by simp_all
  have "\<not> holds_listener ([foreign_socket, own_socket] @ []) [] 25001" by (simp add: holds_listener_def)
  with listener_owner_exact [OF sample_sockets_ok(2,1,3) n, of "Some p" "[]" for p] show ?thesis by blast
qed

text \<open>The check looks at the port only: a runtime that listens on another address with
  the same port passes as the owner of an address on which another process listens.\<close>

lemma owner_check_ignores_the_address:
  "listenerOwnedByPID (host_fs ''sl'' [foreign_socket, own_socket] [] 77 [Some (socket_link (so_inode own_socket))])
      (JoinHostPort ''127.0.0.1'' (Itoa 25001)) 77 = (True, True)
   \<and> so_host foreign_socket = ''0100007F'' \<and> so_inode foreign_socket \<noteq> so_inode own_socket
   \<and> so_host own_socket \<noteq> so_host foreign_socket"
proof -
  have "holds_listener ([foreign_socket, own_socket] @ []) [Some (socket_link (so_inode own_socket))] 25001"
    by (simp add: holds_listener_def own_socket_def)
  with owned_iff [OF sample_sockets_ok(2,1,3), of 25001 77] show ?thesis
    by (simp add: foreign_socket_def own_socket_def)
qed

end
