(* ===== verification/RunLoop.thy ===== *)
theory RunLoop
  imports Addresses ConfigJson "HOL-Library.Word"
begin

text \<open>
  The main loop of the subprocess runner: \<open>run\<close>, \<open>waitProcess\<close>,
  \<open>waitBackendListeners\<close>, \<open>waitBackendListenersProcess\<close>,
  \<open>backendListenerReadyContext\<close>, \<open>writeTempConfig\<close> of \<^verbatim>\<open>subprocess.go\<close>.

  What the loop does to the rest of the program is the list of its events: starting the
  static runtime and its end, the flag \<open>healthy\<close>, \<^verbatim>\<open>markReady(nil)\<close>,
  \<open>stopDynamicBackends\<close>, the backoff sleeps, the temporary configuration file.
  \<open>EvHealthy\<close> and \<open>EvStopDynamic\<close> are the labels \<open>LHealthy\<close> and \<open>LStopAll\<close> of the theory
  \<open>Interleaving\<close>. What the outside answers (start errors, the polls of the listeners,
  exits, the context) is a script, one entry per attempt; a script that runs out stands
  for a wait that does not end, and the result is then \<open>None\<close>.
\<close>

section \<open>Waiting for the listeners\<close>

text \<open>One round of the polling loop: whether every address could be dialled, what the
  non-blocking look at the exit channel found, and the event the blocking \<^verbatim>\<open>select\<close>
  ended with. \<open>EvTimeout\<close> carries \<^verbatim>\<open>ctx.Err()\<close> of the caller's context.\<close>

datatype wait_event =
    EvTick
  | EvDone "go_error option"
  | EvTimeout "go_error option"

record poll =
  pl_dials :: "bool list"
  pl_done :: "go_error option option"
  pl_event :: wait_event

definition allBackendsDialable :: "bool list \<Rightarrow> bool" where
  "allBackendsDialable dials = list_all (\<lambda>ok. ok) dials"

text \<open>An exit without an error is an error before readiness.\<close>

definition exited_early :: "go_error option \<Rightarrow> go_error" where
  "exited_early err = (case err of None \<Rightarrow> Sentinel errSubprocessExitedBeforeReady | Some e \<Rightarrow> e)"

definition not_ready_error :: "string list \<Rightarrow> go_error option \<Rightarrow> go_error" where
  "not_ready_error args ctx_err =
     (case ctx_err of
        Some e \<Rightarrow> Wrapped e args
      | None \<Rightarrow> NewError ''vialite: subprocess backend listener did not become ready'' args)"

text \<open>The result of both waits: whether the process is known to have exited, and the error.
  \<open>args\<close> are the operands of the error message, the described addresses, and for a dynamic
  backend its name before them.\<close>

fun wait_listeners :: "string list \<Rightarrow> poll list \<Rightarrow> (bool \<times> go_error option) option" where
  "wait_listeners args [] = None"
| "wait_listeners args (p # ps) =
     (if allBackendsDialable (pl_dials p) then
        (case pl_done p of
           Some err \<Rightarrow> Some (True, Some (exited_early err))
         | None \<Rightarrow> Some (False, None))
      else
        (case pl_event p of
           EvDone err \<Rightarrow> Some (True, Some (exited_early err))
         | EvTimeout ctx_err \<Rightarrow> Some (False, Some (not_ready_error args ctx_err))
         | EvTick \<Rightarrow> wait_listeners args ps))"

definition waitBackendListeners :: "string \<Rightarrow> poll list \<Rightarrow> (bool \<times> go_error option) option" where
  "waitBackendListeners binds polls = wait_listeners [binds] polls"

definition waitBackendListenersProcess ::
  "string \<Rightarrow> string \<Rightarrow> poll list \<Rightarrow> (bool \<times> go_error option) option" where
  "waitBackendListenersProcess name binds polls = wait_listeners [name, binds] polls"

text \<open>The deadline of the wait: the caller's, else ten seconds from now; \<open>None\<close> is a nil
  context, \<open>Some d\<close> a context with the deadline \<open>d\<close>, if any.\<close>

definition fallbackTimeout :: duration where "fallbackTimeout = 10 * Second"

definition backendListenerReadyContext :: "duration option option \<Rightarrow> duration \<Rightarrow> duration" where
  "backendListenerReadyContext ctx now =
     (case ctx of Some (Some deadline) \<Rightarrow> deadline | _ \<Rightarrow> now + fallbackTimeout)"

section \<open>Waiting for the process\<close>

text \<open>How \<open>waitProcess\<close> can go: the process exits first; or the context ends first, the
  termination signal is sent (with an error or none), and the process exits in time or is
  killed after the timeout (with an error or none).\<close>

datatype term_script = ExitsInTime "go_error option" | TimesOut "go_error option"
datatype wait_script = ExitsFirst "go_error option" | Cancelled "go_error option" term_script

definition real_error :: "go_error option \<Rightarrow> go_error option" where
  "real_error err = (case err of None \<Rightarrow> None
     | Some e \<Rightarrow> if errors_is e OsErrProcessDone then None else Some e)"

text \<open>The error, and whether the process is known to be gone. In the \<^verbatim>\<open>Cancelled\<close> case
  the context has ended, so an exit in time is reported as nil.\<close>

fun waitProcess :: "wait_script \<Rightarrow> go_error option \<times> bool" where
  "waitProcess (ExitsFirst err) = (err, True)"
| "waitProcess (Cancelled term_err t) =
     (case real_error term_err of
        Some e \<Rightarrow> (Some e, False)
      | None \<Rightarrow>
          (case t of
             ExitsInTime err \<Rightarrow> (None, True)
           | TimesOut kill_err \<Rightarrow>
               (case real_error kill_err of Some e \<Rightarrow> (Some e, False) | None \<Rightarrow> (None, True))))"

section \<open>The temporary configuration\<close>

record temp_script =
  tf_create :: "(go_error, string) result"
  tf_write :: "go_error option"
  tf_close :: "go_error option"

definition writeTempConfig ::
  "temp_script \<Rightarrow> string \<Rightarrow> (string \<rightharpoonup> string) \<Rightarrow> (go_error, string) result \<times> (string \<rightharpoonup> string)" where
  "writeTempConfig ts data fs =
     (case tf_create ts of
        Inl e \<Rightarrow> (Inl e, fs)
      | Inr path \<Rightarrow>
          (case tf_write ts of
             Some e \<Rightarrow> (Inl e, map_remove fs path)
           | None \<Rightarrow>
               (case tf_close ts of
                  Some e \<Rightarrow> (Inl e, map_remove fs path)
                | None \<Rightarrow> (Inr path, fs(path \<mapsto> data)))))"

lemma writeTempConfig_ok:
  "fst (writeTempConfig ts data fs) = Inr path \<Longrightarrow> snd (writeTempConfig ts data fs) path = Some data"
  by (auto simp: writeTempConfig_def split: sum.splits option.splits)

section \<open>One attempt\<close>

datatype loop_event =
    EvStart nat
  | EvStartFailed nat
  | EvGone nat
  | EvHealthy bool
  | EvMarkReady
  | EvStopDynamic
  | EvSleep duration
  | EvWriteConfig string string
  | EvRemoveConfig string

text \<open>The answers during one attempt. \<open>at_cancel\<close> is the first of the loop's looks at
  \<^verbatim>\<open>ctx.Err()\<close> that sees the context ended: 0 after the listeners were waited for, 1
  after the process was, 2 before the retry decision, 3 during the backoff sleep.\<close>

record attempt =
  at_start :: "go_error option"
  at_polls :: "poll list"
  at_wait :: wait_script
  at_cancel :: "nat option"

definition sees_cancel :: "attempt \<Rightarrow> nat \<Rightarrow> bool" where
  "sees_cancel a k = (case at_cancel a of None \<Rightarrow> False | Some c \<Rightarrow> c \<le> k)"

datatype outcome = Return "go_error option" | Again

text \<open>The end of the loop body.\<close>

definition retry_decision ::
  "restart_policy \<Rightarrow> duration \<Rightarrow> attempt \<Rightarrow> nat \<Rightarrow> go_error option \<Rightarrow> loop_event list \<times> outcome" where
  "retry_decision rp backoff a n err =
     (if sees_cancel a 2 then ([], Return None)
      else case err of
        None \<Rightarrow> ([], Return None)
      | Some e \<Rightarrow>
          if 0 \<le> MaxRetries rp \<and> MaxRetries rp \<le> int n then ([EvStopDynamic], Return (Some e))
          else if sees_cancel a 3 then ([EvSleep backoff], Return None)
          else ([EvSleep backoff], Again))"

definition run_attempt ::
  "restart_policy \<Rightarrow> string \<Rightarrow> duration \<Rightarrow> attempt \<Rightarrow> nat \<Rightarrow> (loop_event list \<times> outcome) option" where
  "run_attempt rp binds backoff a n =
     (case at_start a of
        Some e \<Rightarrow> Some ([EvStartFailed n], Return (Some e))
      | None \<Rightarrow>
          (case waitBackendListeners binds (at_polls a) of
             None \<Rightarrow> None
           | Some (processDone, Some err) \<Rightarrow>
               (let evs = [EvStart n, EvHealthy True] @ (if processDone then [EvGone n] else [])
                          @ [EvHealthy False] in
                if sees_cancel a 0 then
                  (let gone = (if \<not> processDone \<and> snd (waitProcess (at_wait a)) then [EvGone n] else [])
                   in Some (evs @ gone @ [EvStopDynamic], Return None))
                else
                  (let gone = (if processDone then [] else [EvGone n]);
                       (evs', out) = retry_decision rp backoff a n (Some err)
                   in Some (evs @ gone @ evs', out)))
           | Some (processDone, None) \<Rightarrow>
               (let (err, gone) = waitProcess (at_wait a);
                    evs = [EvStart n, EvHealthy True, EvMarkReady] @ (if gone then [EvGone n] else [])
                          @ [EvHealthy False]
                          @ (if sees_cancel a 1 \<or> err = None then [EvStopDynamic] else []);
                    (evs', out) = retry_decision rp backoff a n err
                in Some (evs @ evs', out))))"

text \<open>Doubling wraps at 64 bits, the comparison is signed.\<close>

definition next_backoff :: "restart_policy \<Rightarrow> duration \<Rightarrow> duration" where
  "next_backoff rp backoff =
     (let b = backoff * 2 in if MaxBackoff rp <s b then MaxBackoff rp else b)"

text \<open>The loop, over the script of its attempts; the fuel bounds their number.\<close>

fun run_loop ::
  "nat \<Rightarrow> restart_policy \<Rightarrow> string \<Rightarrow> (nat \<Rightarrow> attempt) \<Rightarrow> nat \<Rightarrow> duration
    \<Rightarrow> (loop_event list \<times> go_error option) option" where
  "run_loop 0 rp binds script n backoff = None"
| "run_loop (Suc fuel) rp binds script n backoff =
     (case run_attempt rp binds backoff (script n) n of
        None \<Rightarrow> None
      | Some (evs, Return err) \<Rightarrow> Some (evs, err)
      | Some (evs, Again) \<Rightarrow>
          map_option (\<lambda>(evs', err). (evs @ evs', err))
            (run_loop fuel rp binds script (Suc n) (next_backoff rp backoff)))"

section \<open>The whole run\<close>

record run_script =
  rs_locate :: "(go_error, string) result"
  rs_net :: net_env
  rs_clock :: nat
  rs_order :: "(string \<rightharpoonup> string) \<Rightarrow> (string \<times> string) list \<times> string list"
  rs_temp :: temp_script
  rs_attempts :: "nat \<Rightarrow> attempt"
  rs_cancelled :: bool

text \<open>\<open>rs_order\<close> gives the orders in which the error messages visit the address map.
  \<open>rs_cancelled\<close>: whether the context ends, without which a server that only has dynamic
  backends runs forever. The restart policy has been defaulted by \<open>validate\<close>.\<close>

definition only_dynamic :: "options \<Rightarrow> bool" where
  "only_dynamic opts \<longleftrightarrow> o_Backends opts = [] \<and> o_AllowDynamicBackends opts"

definition subprocess_run ::
  "nat \<Rightarrow> run_script \<Rightarrow> options \<Rightarrow> restart_policy \<Rightarrow> (loop_event list \<times> go_error option) option" where
  "subprocess_run fuel rs opts rp =
     (case rs_locate rs of
        Inl e \<Rightarrow> Some ([], Some e)
      | Inr bin \<Rightarrow>
          if only_dynamic opts then
            (if rs_cancelled rs
             then Some ([EvHealthy True, EvMarkReady, EvHealthy False, EvStopDynamic], None)
             else None)
          else
            (case loopbackBackendAddresses (rs_net rs) (rs_clock rs) (o_Bind opts) (o_Backends opts) of
               (Inl e, _) \<Rightarrow> Some ([], Some e)
             | (Inr backends, _) \<Rightarrow>
                 (case nativeConfigJSONWithBackendBinds opts backends of
                    Inl e \<Rightarrow> Some ([], Some e)
                  | Inr config \<Rightarrow>
                      (case fst (writeTempConfig (rs_temp rs) config Map.empty) of
                         Inl e \<Rightarrow> Some ([], Some e)
                       | Inr path \<Rightarrow>
                           (let (es, order) = rs_order rs backends in
                            map_option
                              (\<lambda>(evs, err). (EvWriteConfig path config # evs @ [EvRemoveConfig path], err))
                              (run_loop fuel rp (describeBackendBinds es order) (rs_attempts rs) 0
                                 (MinBackoff rp)))))))"

section \<open>Readiness\<close>

text \<open>The round that ends the wait in readiness: every round before it found an address
  that could not be dialled and ended with a tick.\<close>

lemma wait_listeners_ready_iff:
  "wait_listeners args polls = Some (done, None) \<longleftrightarrow>
     \<not> done \<and> (\<exists>i < length polls. allBackendsDialable (pl_dials (polls ! i)) \<and> pl_done (polls ! i) = None
       \<and> (\<forall>j < i. \<not> allBackendsDialable (pl_dials (polls ! j)) \<and> pl_event (polls ! j) = EvTick))"
proof (induction polls)
  case Nil
  then show ?case by simp
next
  case (Cons p ps)
  show ?case
  proof (cases "allBackendsDialable (pl_dials p) \<or> pl_event p \<noteq> EvTick")
    case True
    then show ?thesis
      by (auto simp: Ex_less_Suc2 All_less_Suc2 split: option.splits wait_event.splits)
  next
    case False
    with Cons show ?thesis
      by (simp add: Ex_less_Suc2 All_less_Suc2)
  qed
qed

text \<open>When a wait fails although the runtime has not exited, the deadline is what ended it.\<close>

lemma wait_listeners_timeout:
  "wait_listeners args polls = Some (False, Some e) \<Longrightarrow>
     \<exists>p \<in> set polls. \<not> allBackendsDialable (pl_dials p)
       \<and> (\<exists>c. pl_event p = EvTimeout c \<and> e = not_ready_error args c)"
  by (induction polls) (auto split: if_splits option.splits wait_event.splits)

section \<open>How a run goes\<close>

text \<open>The monitor of the events: no second static runtime while one runs, readiness only
  while healthy, dynamic backends stopped once, with \<open>healthy\<close> down, and nothing
  started or raised after that.\<close>

record monitor =
  m_healthy :: bool
  m_child :: bool
  m_stopped :: bool

fun monitor_event :: "loop_event \<Rightarrow> monitor \<Rightarrow> monitor option" where
  "monitor_event (EvStart n) m = (if m_child m \<or> m_stopped m then None else Some (m\<lparr>m_child := True\<rparr>))"
| "monitor_event (EvGone n) m = (if m_child m then Some (m\<lparr>m_child := False\<rparr>) else None)"
| "monitor_event (EvHealthy b) m = (if b \<and> m_stopped m then None else Some (m\<lparr>m_healthy := b\<rparr>))"
| "monitor_event EvMarkReady m = (if m_healthy m then Some m else None)"
| "monitor_event EvStopDynamic m =
     (if m_healthy m \<or> m_stopped m then None else Some (m\<lparr>m_stopped := True\<rparr>))"
| "monitor_event (EvSleep d) m = (if m_healthy m \<or> m_child m \<or> m_stopped m then None else Some m)"
| "monitor_event ev m = Some m"

fun monitor_run :: "loop_event list \<Rightarrow> monitor \<Rightarrow> monitor option" where
  "monitor_run [] m = Some m"
| "monitor_run (ev # evs) m = (case monitor_event ev m of None \<Rightarrow> None | Some m1 \<Rightarrow> monitor_run evs m1)"

definition idle :: "bool \<Rightarrow> monitor" where
  "idle stopped = \<lparr>m_healthy = False, m_child = False, m_stopped = stopped\<rparr>"

lemma monitor_append:
  "monitor_run (evs @ evs') m = (case monitor_run evs m of None \<Rightarrow> None | Some m1 \<Rightarrow> monitor_run evs' m1)"
  by (induction evs arbitrary: m) (auto split: option.splits)

text \<open>What an attempt's answers obey: the process is waited for past the end of the context
  only when the context has ended, and signals reach it.\<close>

fun signals_reach :: "wait_script \<Rightarrow> bool" where
  "signals_reach (ExitsFirst err) = True"
| "signals_reach (Cancelled term_err (ExitsInTime err)) = (real_error term_err = None)"
| "signals_reach (Cancelled term_err (TimesOut kill_err)) =
     (real_error term_err = None \<and> real_error kill_err = None)"

definition attempt_ok :: "attempt \<Rightarrow> bool" where
  "attempt_ok a \<longleftrightarrow>
     signals_reach (at_wait a) \<and> (case at_wait a of ExitsFirst _ \<Rightarrow> True | Cancelled _ _ \<Rightarrow> sees_cancel a 1)"

lemma sees_cancel_mono: "sees_cancel a j \<Longrightarrow> j \<le> k \<Longrightarrow> sees_cancel a k"
  by (auto simp: sees_cancel_def split: option.splits)

lemma waitProcess_gone: "signals_reach w \<Longrightarrow> snd (waitProcess w)"
  by (induction w rule: signals_reach.induct) simp_all

lemma retry_events:
  "retry_decision rp backoff a n err = (evs, out) \<Longrightarrow>
     (evs, out) \<in> {([], Return None), ([EvStopDynamic], Return err), ([EvSleep backoff], Return None),
        ([EvSleep backoff], Again)}
     \<and> (evs \<noteq> [] \<longrightarrow> err \<noteq> None \<and> \<not> sees_cancel a 2)"
  by (auto simp: retry_decision_def split: if_splits option.splits)

lemma run_attempt_monitor:
  assumes ok: "attempt_ok a" and r: "run_attempt rp binds backoff a n = Some (evs, out)"
  shows "\<exists>st. monitor_run evs (idle False) = Some (idle st) \<and> (out = Again \<longrightarrow> \<not> st)"
proof (cases "at_start a")
  case (Some e)
  with r show ?thesis by (auto simp: run_attempt_def)
next
  case None
  note start = this
  have gone: "snd (waitProcess (at_wait a))" using ok waitProcess_gone by (simp add: attempt_ok_def)
  from r start obtain pd err where w: "waitBackendListeners binds (at_polls a) = Some (pd, err)"
    by (auto simp: run_attempt_def split: option.splits)
  show ?thesis
  proof (cases err)
    case (Some e)
    show ?thesis
    proof (cases "sees_cancel a 0")
      case True
      with r start w Some gone show ?thesis
        by (auto simp: run_attempt_def Let_def idle_def)
    next
      case False
      obtain evs' out' where d: "retry_decision rp backoff a n (Some e) = (evs', out')" by fastforce
      with r start w Some False retry_events [OF d] show ?thesis
        by (auto simp: run_attempt_def Let_def idle_def)
    qed
  next
    case None
    obtain werr g where wp: "waitProcess (at_wait a) = (werr, g)" by fastforce
    obtain evs' out' where d: "retry_decision rp backoff a n werr = (evs', out')" by fastforce
    have c: "sees_cancel a 1 \<Longrightarrow> sees_cancel a 2" using sees_cancel_mono [of a 1 2] by simp
    show ?thesis
      using r start w None wp gone d retry_events [OF d] c
      by (cases "sees_cancel a (Suc 0) \<or> werr = None") (auto simp: run_attempt_def Let_def idle_def)
  qed
qed

lemma run_loop_monitor:
  "(\<forall>n. attempt_ok (script n)) \<Longrightarrow> run_loop fuel rp binds script n backoff = Some (evs, err) \<Longrightarrow>
   \<exists>st. monitor_run evs (idle False) = Some (idle st)"
proof (induction fuel arbitrary: n backoff evs err)
  case 0
  then show ?case by simp
next
  case (Suc fuel)
  then obtain evs1 out where a: "run_attempt rp binds backoff (script n) n = Some (evs1, out)"
    by (auto split: option.splits)
  have ok: "attempt_ok (script n)" using Suc.prems(1) by blast
  from run_attempt_monitor [OF ok a] obtain st where
    st: "monitor_run evs1 (idle False) = Some (idle st)" "out = Again \<Longrightarrow> \<not> st" by blast
  show ?case
  proof (cases out)
    case (Return e)
    with a st Suc.prems(2) show ?thesis by auto
  next
    case Again
    with a Suc.prems(2) obtain evs2 where "run_loop fuel rp binds script (Suc n) (next_backoff rp backoff) = Some (evs2, err)"
        "evs = evs1 @ evs2" by auto
    with Suc.IH [OF Suc.prems(1)] st Again show ?thesis by (fastforce simp: monitor_append)
  qed
qed


text \<open>C10: A run of the subprocess runner keeps its house in order, whatever the runtime and
  the context do, as long as signals reach the runtime: it never has two static runtimes at
  once, reports readiness only while it is healthy, stops its dynamic backends at most once,
  with the health flag down and with nothing started or raised afterwards, sleeps only while
  no runtime is running, and returns with no static runtime running and the flag down.\<close>

theorem run_is_orderly:
  assumes "\<forall>n. attempt_ok (rs_attempts rs n)" and "subprocess_run fuel rs opts rp = Some (evs, err)"
  shows "\<exists>st. monitor_run evs \<lparr>m_healthy = False, m_child = False, m_stopped = False\<rparr>
    = Some \<lparr>m_healthy = False, m_child = False, m_stopped = st\<rparr>"
proof -
  have "\<exists>st. monitor_run evs (idle False) = Some (idle st)"
    using assms(2)
  proof (cases "\<exists>path config evs' binds. evs = EvWriteConfig path config # evs' @ [EvRemoveConfig path]
      \<and> run_loop fuel rp binds (rs_attempts rs) 0 (MinBackoff rp) = Some (evs', err)")
    case True
    then show ?thesis using run_loop_monitor [OF assms(1)] by (fastforce simp: monitor_append)
  next
    case False
    with assms(2) have "evs = [] \<or> evs = [EvHealthy True, EvMarkReady, EvHealthy False, EvStopDynamic]"
      unfolding subprocess_run_def
      by (auto simp: nativeConfigJSONWithBackendBinds_def split: sum.splits if_splits prod.splits)
    then show ?thesis by (auto simp: idle_def)
  qed
  then show ?thesis by (simp add: idle_def)
qed

section \<open>Retries and backoff\<close>

definition starts :: "loop_event list \<Rightarrow> nat list" where
  "starts evs = concat (map (\<lambda>ev. case ev of EvStart n \<Rightarrow> [n] | EvStartFailed n \<Rightarrow> [n] | _ \<Rightarrow> []) evs)"

definition sleeps :: "loop_event list \<Rightarrow> duration list" where
  "sleeps evs = concat (map (\<lambda>ev. case ev of EvSleep d \<Rightarrow> [d] | _ \<Rightarrow> []) evs)"

lemma starts_append [simp]: "starts (evs @ evs') = starts evs @ starts evs'"
  and sleeps_append [simp]: "sleeps (evs @ evs') = sleeps evs @ sleeps evs'"
  by (simp_all add: starts_def sleeps_def)

lemma event_counts [simp]:
  "starts [] = []" "starts (EvStart n # evs) = n # starts evs"
  "starts (EvStartFailed n # evs) = n # starts evs" "starts (EvGone n # evs) = starts evs"
  "starts (EvHealthy b # evs) = starts evs" "starts (EvMarkReady # evs) = starts evs"
  "starts (EvStopDynamic # evs) = starts evs" "starts (EvSleep d # evs) = starts evs"
  "sleeps [] = []" "sleeps (EvStart n # evs) = sleeps evs" "sleeps (EvStartFailed n # evs) = sleeps evs"
  "sleeps (EvGone n # evs) = sleeps evs" "sleeps (EvHealthy b # evs) = sleeps evs"
  "sleeps (EvMarkReady # evs) = sleeps evs" "sleeps (EvStopDynamic # evs) = sleeps evs"
  "sleeps (EvSleep d # evs) = d # sleeps evs"
  by (simp_all add: starts_def sleeps_def)

lemma run_attempt_counts:
  assumes "run_attempt rp binds backoff a n = Some (evs, out)"
  shows "starts evs = [n] \<and> (sleeps evs = [] \<or> sleeps evs = [backoff])
    \<and> (out = Again \<longrightarrow> sleeps evs = [backoff] \<and> \<not> (0 \<le> MaxRetries rp \<and> MaxRetries rp \<le> int n))"
proof -
  have d: "starts evs' = [] \<and> (sleeps evs' = [] \<or> sleeps evs' = [backoff])
      \<and> (out' = Again \<longrightarrow> sleeps evs' = [backoff] \<and> \<not> (0 \<le> MaxRetries rp \<and> MaxRetries rp \<le> int n))"
    if "retry_decision rp backoff a n e = (evs', out')" for e evs' out'
    using that by (auto simp: retry_decision_def split: if_splits option.splits)
  show ?thesis
    using assms unfolding run_attempt_def
    by (auto simp: Let_def dest!: d split: option.splits prod.splits if_splits)
qed

text \<open>The backoff of the \<open>k\<close>-th sleep.\<close>

fun backoff_at :: "restart_policy \<Rightarrow> duration \<Rightarrow> nat \<Rightarrow> duration" where
  "backoff_at rp b 0 = b"
| "backoff_at rp b (Suc k) = backoff_at rp (next_backoff rp b) k"

lemma run_loop_sleeps:
  "run_loop fuel rp binds script n b = Some (evs, err) \<Longrightarrow>
     sleeps evs = map (backoff_at rp b) [0..<length (sleeps evs)]
     \<and> starts evs = [n..<n + length (starts evs)]
     \<and> length (sleeps evs) \<le> length (starts evs) \<and> length (starts evs) \<le> fuel"
proof (induction fuel arbitrary: n b evs)
  case 0
  then show ?case by simp
next
  case (Suc fuel)
  then obtain evs1 out where a: "run_attempt rp binds b (script n) n = Some (evs1, out)"
    by (auto split: option.splits)
  note c = run_attempt_counts [OF a]
  show ?case
  proof (cases out)
    case (Return e)
    with a Suc.prems have "evs1 = evs" by auto
    with c show ?thesis by auto
  next
    case Again
    with a Suc.prems obtain evs2 where
      r: "run_loop fuel rp binds script (Suc n) (next_backoff rp b) = Some (evs2, err)" "evs = evs1 @ evs2"
      by auto
    note IH = Suc.IH [OF r(1)]
    have s: "sleeps evs = b # sleeps evs2" "starts evs = n # starts evs2" using c Again r(2) by auto
    have "map (backoff_at rp b) [0..<Suc m] = b # map (backoff_at rp (next_backoff rp b)) [0..<m]" for m
      by (simp add: upt_conv_Cons map_Suc_upt [symmetric] comp_def del: upt_Suc)
    with IH s show ?thesis by (auto simp: upt_conv_Cons simp del: upt_Suc)
  qed
qed

lemma backoff_step_int:
  assumes "0 \<le> sint b" "sint b < 2 ^ 62" "0 \<le> sint (MaxBackoff rp)" "sint (MaxBackoff rp) < 2 ^ 62"
  shows "sint (next_backoff rp b) = min (2 * sint b) (sint (MaxBackoff rp))"
proof -
  have "sint (b * 2) = signed_take_bit 63 (sint b * sint (2 :: 64 word))"
    by (simp add: sint_word_ariths)
  also have "sint (2 :: 64 word) = 2" by simp
  also have "signed_take_bit 63 (sint b * 2) = sint b * 2"
    using assms by (intro signed_take_bit_int_eq_self) simp_all
  finally have "sint (b * 2) = sint b * 2" .
  then show ?thesis by (auto simp: next_backoff_def Let_def word_sless_alt min_def)
qed

lemma backoff_at_int:
  assumes "0 \<le> sint b" "sint b < 2 ^ 62" "0 \<le> sint (MaxBackoff rp)" "sint (MaxBackoff rp) < 2 ^ 62"
  shows "sint (backoff_at rp b k) = (if k = 0 then sint b else min (2 ^ k * sint b) (sint (MaxBackoff rp)))"
  using assms(1,2)
proof (induction k arbitrary: b)
  case 0
  then show ?case by simp
next
  case (Suc k)
  note nx = backoff_step_int [OF Suc.prems assms(3,4)]
  let ?M = "sint (MaxBackoff rp)"
  have IH: "sint (backoff_at rp (next_backoff rp b) k) =
      (if k = 0 then min (2 * sint b) ?M else min (2 ^ k * min (2 * sint b) ?M) ?M)"
    using Suc.IH [of "next_backoff rp b"] nx Suc.prems assms(3,4) by simp
  have "?M \<le> 2 ^ k * ?M" using assms(3) by (simp add: mult_le_cancel_right1)
  moreover have "2 ^ k * min (2 * sint b) ?M = min (2 ^ Suc k * sint b) (2 ^ k * ?M)"
    by (simp add: min_mult_distrib_left)
  ultimately have "min (2 ^ k * min (2 * sint b) ?M) ?M = min (2 ^ Suc k * sint b) ?M"
    by linarith
  with IH show ?case by simp
qed

lemma subprocess_run_loop:
  assumes "subprocess_run fuel rs opts rp = Some (evs, err)" and "evs \<noteq> []" and "\<not> only_dynamic opts"
  obtains path config evs' binds m where "evs = EvWriteConfig path config # evs' @ [EvRemoveConfig path]"
    "run_loop fuel rp binds (rs_attempts rs) 0 (MinBackoff rp) = Some (evs', err)"
    "fst (loopbackBackendAddresses (rs_net rs) (rs_clock rs) (o_Bind opts) (o_Backends opts)) = Inr m"
    "nativeConfigJSONWithBackendBinds opts m = Inr config"
  using assms unfolding subprocess_run_def
  by (auto simp: Let_def split: sum.splits if_splits prod.splits)

lemma starts_of_run:
  assumes "subprocess_run fuel rs opts rp = Some (evs, err)"
  shows "starts evs = [] \<and> sleeps evs = [] \<or>
    (\<exists>binds evs'. starts evs = starts evs' \<and> sleeps evs = sleeps evs'
       \<and> run_loop fuel rp binds (rs_attempts rs) 0 (MinBackoff rp) = Some (evs', err))"
proof (cases "evs = [] \<or> only_dynamic opts")
  case True
  with assms show ?thesis
    by (auto simp: subprocess_run_def split: sum.splits if_splits)
next
  case False
  with subprocess_run_loop [OF assms] obtain path config evs' binds where
    "evs = EvWriteConfig path config # evs' @ [EvRemoveConfig path]"
    "run_loop fuel rp binds (rs_attempts rs) 0 (MinBackoff rp) = Some (evs', err)" by metis
  then show ?thesis by (auto simp: starts_def sleeps_def)
qed

text \<open>C26: The sleeps between restarts double from \<open>MinBackoff\<close> and stay at
  \<open>MaxBackoff\<close> once they would pass it (the first sleep is \<open>MinBackoff\<close> itself, whatever
  the maximum is); the 64-bit doubling does not wrap for backoffs below two to the 62
  nanoseconds.\<close>

theorem backoff_doubles_up_to_max:
  assumes "0 \<le> sint (MinBackoff rp)" and "sint (MinBackoff rp) < 2 ^ 62"
    and "0 \<le> sint (MaxBackoff rp)" and "sint (MaxBackoff rp) < 2 ^ 62"
    and "subprocess_run fuel rs opts rp = Some (evs, err)" and "k < length (sleeps evs)"
  shows "sint (sleeps evs ! k) =
    (if k = 0 then sint (MinBackoff rp) else min (2 ^ k * sint (MinBackoff rp)) (sint (MaxBackoff rp)))"
proof -
  from starts_of_run [OF assms(5)] assms(6) obtain binds evs' where
    l: "sleeps evs = sleeps evs'" "run_loop fuel rp binds (rs_attempts rs) 0 (MinBackoff rp) = Some (evs', err)"
    by auto
  have "sleeps evs' = map (backoff_at rp (MinBackoff rp)) [0..<length (sleeps evs')]"
    using run_loop_sleeps [OF l(2)] by blast
  then have "sleeps evs' ! k = backoff_at rp (MinBackoff rp) k"
    using assms(6) l(1) by (metis (no_types, lifting) add_0 length_map length_upt minus_nat.diff_0 nth_map nth_upt)
  then show ?thesis using backoff_at_int [OF assms(1-4)] l(1) by simp
qed

lemma run_loop_returns:
  assumes "0 \<le> MaxRetries rp" and "\<forall>k. at_start (script k) \<noteq> None \<or> waitBackendListeners binds (at_polls (script k)) \<noteq> None"
  shows "nat (MaxRetries rp) < n + fuel \<Longrightarrow> 0 < fuel \<Longrightarrow> \<exists>r. run_loop fuel rp binds script n b = Some r"
proof (induction fuel arbitrary: n b)
  case 0
  then show ?case by simp
next
  case (Suc fuel)
  have "run_attempt rp binds b (script n) n \<noteq> None"
    using assms(2) [rule_format, of n]
    by (auto simp: run_attempt_def Let_def split: option.splits prod.splits)
  then obtain evs out where a: "run_attempt rp binds b (script n) n = Some (evs, out)" by auto
  show ?case
  proof (cases out)
    case (Return e)
    with a show ?thesis by simp
  next
    case Again
    with run_attempt_counts [OF a] assms(1) have "n < nat (MaxRetries rp)" by auto
    with Suc.prems have "nat (MaxRetries rp) < Suc n + fuel" "0 < fuel" by auto
    with Suc.IH [of "Suc n" "next_backoff rp b"] a Again show ?thesis by auto
  qed
qed

lemma run_loop_starts_bound:
  assumes "0 \<le> MaxRetries rp"
  shows "run_loop fuel rp binds script n b = Some (evs, err) \<Longrightarrow> n \<le> nat (MaxRetries rp) \<Longrightarrow>
    n + length (starts evs) \<le> Suc (nat (MaxRetries rp))"
proof (induction fuel arbitrary: n b evs)
  case 0
  then show ?case by simp
next
  case (Suc fuel)
  then obtain evs1 out where a: "run_attempt rp binds b (script n) n = Some (evs1, out)"
    by (auto split: option.splits)
  note c = run_attempt_counts [OF a]
  show ?case
  proof (cases out)
    case (Return e)
    with a c Suc.prems show ?thesis by auto
  next
    case Again
    with a Suc.prems obtain evs2 where
      r: "run_loop fuel rp binds script (Suc n) (next_backoff rp b) = Some (evs2, err)" "evs = evs1 @ evs2"
      by auto
    moreover have "Suc n \<le> nat (MaxRetries rp)" using c Again assms by auto
    ultimately show ?thesis using Suc.IH [OF r(1)] c by auto
  qed
qed

text \<open>C25: With a non-negative retry limit a run of the loop returns, whenever each attempt's
  readiness wait ends, after at most one attempt more than the limit; the number of attempts
  the fuel allows is then enough.\<close>

theorem run_returns_within_retries:
  assumes "0 \<le> MaxRetries rp" and "\<not> only_dynamic opts"
    and "\<forall>k binds. at_start (rs_attempts rs k) \<noteq> None
           \<or> waitBackendListeners binds (at_polls (rs_attempts rs k)) \<noteq> None"
  shows "\<exists>evs err. subprocess_run (Suc (nat (MaxRetries rp))) rs opts rp = Some (evs, err)
    \<and> length (starts evs) \<le> Suc (nat (MaxRetries rp))"
proof -
  let ?f = "Suc (nat (MaxRetries rp))"
  have "\<exists>r. run_loop ?f rp binds (rs_attempts rs) 0 (MinBackoff rp) = Some r" for binds
    using run_loop_returns [OF assms(1), of "rs_attempts rs" binds 0 ?f "MinBackoff rp"] assms(3)
    by (metis add_0 lessI zero_less_Suc)
  then obtain g where loop: "\<And>binds. run_loop ?f rp binds (rs_attempts rs) 0 (MinBackoff rp) = Some (g binds)"
    by metis
  have "subprocess_run ?f rs opts rp \<noteq> None"
    using assms(2) loop unfolding subprocess_run_def
    by (auto simp: nativeConfigJSONWithBackendBinds_def simp del: run_loop.simps
        split: sum.splits prod.splits)
  then obtain evs err where r: "subprocess_run ?f rs opts rp = Some (evs, err)" by auto
  have "length (starts evs) \<le> ?f"
    using starts_of_run [OF r]
  proof (elim disjE exE conjE)
    fix binds evs'
    assume "starts evs = starts evs'" "run_loop ?f rp binds (rs_attempts rs) 0 (MinBackoff rp) = Some (evs', err)"
    with run_loop_starts_bound [OF assms(1), of ?f binds "rs_attempts rs" 0 "MinBackoff rp" evs' err]
    show ?thesis by simp
  qed simp
  with r show ?thesis by blast
qed

section \<open>When the dynamic backends are stopped\<close>

text \<open>An attempt after which a returning loop has stopped the dynamic backends: it started,
  and the end of the context was seen while the loop waited for the runtime, not between
  the waits or in the backoff sleep.\<close>

definition stops_on_return :: "string \<Rightarrow> attempt \<Rightarrow> bool" where
  "stops_on_return binds a \<longleftrightarrow>
     at_start a = None \<and> at_cancel a \<noteq> Some 2 \<and> at_cancel a \<noteq> Some 3
     \<and> (at_cancel a = Some 1 \<longrightarrow> waitBackendListeners binds (at_polls a) = Some (False, None))"

lemma run_attempt_stops:
  assumes "run_attempt rp binds b a n = Some (evs, Return err)" and "stops_on_return binds a"
  shows "EvStopDynamic \<in> set evs"
proof -
  have c: "sees_cancel a 2 \<Longrightarrow> at_cancel a = Some 0 \<or> at_cancel a = Some 1" "\<not> sees_cancel a 3 \<or> sees_cancel a 2"
    using assms(2) by (auto simp: stops_on_return_def sees_cancel_def numeral_eq_Suc le_Suc_eq split: option.splits)
  have r: "EvStopDynamic \<in> set evs'" if "retry_decision rp b a n (Some e) = (evs', Return err')" "\<not> sees_cancel a 2"
    for e evs' err' using that c(2) by (auto simp: retry_decision_def split: if_splits)
  from assms obtain pd e where w: "waitBackendListeners binds (at_polls a) = Some (pd, e)"
    by (auto simp: run_attempt_def stops_on_return_def split: option.splits)
  show ?thesis
  proof (cases e)
    case None
    obtain werr g where wp: "waitProcess (at_wait a) = (werr, g)" by fastforce
    have "\<not> sees_cancel a 2 \<or> sees_cancel a 1" using c(1) by (auto simp: sees_cancel_def)
    then show ?thesis using assms w None wp
      by (cases werr) (auto simp: run_attempt_def stops_on_return_def Let_def
          split: prod.splits if_splits intro: r)
  next
    case (Some x)
    have "\<not> sees_cancel a 2 \<or> sees_cancel a 0"
      using c(1) assms(2) w Some by (auto simp: sees_cancel_def stops_on_return_def)
    then show ?thesis using assms w Some
      by (auto simp: run_attempt_def stops_on_return_def Let_def split: prod.splits if_splits intro: r)
  qed
qed

lemma run_loop_stops:
  "(\<forall>k. stops_on_return binds (script k)) \<Longrightarrow> run_loop fuel rp binds script n b = Some (evs, err) \<Longrightarrow>
   EvStopDynamic \<in> set evs"
proof (induction fuel arbitrary: n b evs)
  case 0
  then show ?case by simp
next
  case (Suc fuel)
  then obtain evs1 out where a: "run_attempt rp binds b (script n) n = Some (evs1, out)"
    by (auto split: option.splits)
  show ?case
  proof (cases out)
    case (Return e)
    with a Suc.prems run_attempt_stops [of rp binds b "script n" n evs1 e] show ?thesis by auto
  next
    case Again
    with a Suc.prems Suc.IH show ?thesis by auto
  qed
qed

text \<open>A run that returns after its runtimes started, and in which the end of the context
  is noticed while the loop waits for a runtime (or not at all), has stopped the dynamic
  backends.\<close>

lemma run_stops_dynamic_backends:
  assumes "subprocess_run fuel rs opts rp = Some (evs, err)" and "evs \<noteq> []"
    and "\<forall>k binds. stops_on_return binds (rs_attempts rs k)"
  shows "EvStopDynamic \<in> set evs"
proof (cases "only_dynamic opts")
  case True
  with assms(1,2) show ?thesis by (auto simp: subprocess_run_def split: sum.splits if_splits)
next
  case False
  from subprocess_run_loop [OF assms(1,2) False] obtain path config evs' binds where
    "evs = EvWriteConfig path config # evs' @ [EvRemoveConfig path]"
    "run_loop fuel rp binds (rs_attempts rs) 0 (MinBackoff rp) = Some (evs', err)" by metis
  with run_loop_stops [of binds "rs_attempts rs"] assms(3) show ?thesis by auto
qed

section \<open>Concrete runs\<close>

definition demo_backend :: backend where
  "demo_backend = \<lparr>b_Name = ''lobby'', b_Address = ''10.0.0.1:25565'', b_Version = auto_version,
     b_Detect = True, b_Forwarding = ForwardingNone\<rparr>"

definition demo_run_opts :: options where
  "demo_run_opts = \<lparr>o_Mode = ModeSubprocess, o_GateProtocol = auto_version, o_Bind = default_bind,
     o_LibraryPath = [], o_BinaryPath = [], o_Version = [], o_Mirror = [], o_Offline = False,
     o_Logger = Some 0, o_RestartPolicy = None, o_ShutdownTimeout = 30 * Second,
     o_AllowDynamicBackends = True, o_Backends = [demo_backend], o_ReserveHook = False\<rparr>"

definition demo_policy :: restart_policy where
  "demo_policy = \<lparr>MinBackoff = Second, MaxBackoff = Minute, MaxRetries = 1\<rparr>"

definition demo_listener :: string where "demo_listener = ''127.0.0.1:40001''"

definition demo_net :: net_env where
  "demo_net = \<lparr>listen = (\<lambda>t a. Inr demo_listener), listen_close = (\<lambda>t. None), rand_int = (\<lambda>t n. 0),
     reserve_hook = (\<lambda>t h. Inr (demo_listener, True))\<rparr>"

definition ready_poll :: poll where
  "ready_poll = \<lparr>pl_dials = [True], pl_done = None, pl_event = EvTick\<rparr>"

text \<open>A runtime that gets ready and crashes; \<open>c\<close> is where the end of the context is seen.\<close>

definition crashing :: "nat option \<Rightarrow> attempt" where
  "crashing c = \<lparr>at_start = None, at_polls = [ready_poll], at_wait = ExitsFirst (Some (ProcessExit 1)),
     at_cancel = c\<rparr>"

definition demo_script :: "(nat \<Rightarrow> attempt) \<Rightarrow> run_script" where
  "demo_script as = \<lparr>rs_locate = Inr ''viaproxy'', rs_net = demo_net, rs_clock = 0,
     rs_order = (\<lambda>m. ([], [])), rs_temp = \<lparr>tf_create = Inr ''tmp'', tf_write = None, tf_close = None\<rparr>,
     rs_attempts = as, rs_cancelled = True\<rparr>"

lemma demo_addresses:
  "loopbackBackendAddresses demo_net 0 default_bind [demo_backend]
     = (Inr (storeBackendAddress Map.empty ''lobby'' demo_listener), 1)"
proof -
  have "SplitHostPort default_bind = Inr (''127.0.0.1'', ''0'')" by code_simp
  then show ?thesis
    by (simp add: loopbackBackendAddresses_def loopbackBackendAddress_def concreteLoopbackBind_def demo_net_def
        demo_backend_def Let_def)
qed

lemma demo_runs:
  "subprocess_run fuel (demo_script as) demo_run_opts rp =
     map_option (\<lambda>(evs, err). (EvWriteConfig ''tmp'' (marshal_config (native_config_of demo_run_opts
         (storeBackendAddress Map.empty ''lobby'' demo_listener))) # evs @ [EvRemoveConfig ''tmp''], err))
       (run_loop fuel rp (describeBackendBinds [] []) as 0 (MinBackoff rp))"
  using demo_addresses
  by (simp add: subprocess_run_def demo_script_def only_dynamic_def demo_run_opts_def
      nativeConfigJSONWithBackendBinds_def writeTempConfig_def)

lemma crashing_ready [simp]: "waitBackendListeners binds (at_polls (crashing c)) = Some (False, None)"
  by (simp add: waitBackendListeners_def crashing_def ready_poll_def allBackendsDialable_def)

lemma crashing_simps [simp]:
  "at_start (crashing c) = None" "at_wait (crashing c) = ExitsFirst (Some (ProcessExit 1))"
  "at_cancel (crashing c) = c"
  by (simp_all add: crashing_def)

definition crash_events :: "loop_event list" where
  "crash_events = [EvStart 0, EvHealthy True, EvMarkReady, EvGone 0, EvHealthy False, EvSleep Second,
     EvStart 1, EvHealthy True, EvMarkReady, EvGone 1, EvHealthy False, EvStopDynamic]"

lemma demo_crash_loop:
  "run_loop 2 demo_policy binds (\<lambda>n. crashing None) 0 Second = Some (crash_events, Some (ProcessExit 1))"
  by (simp add: numeral_eq_Suc run_attempt_def retry_decision_def sees_cancel_def demo_policy_def Let_def
      crash_events_def)

definition demo_crash_events :: "loop_event list" where
  "demo_crash_events = EvWriteConfig ''tmp'' (marshal_config (native_config_of demo_run_opts
     (storeBackendAddress Map.empty ''lobby'' demo_listener))) # crash_events @ [EvRemoveConfig ''tmp'']"

lemma demo_crash_run:
  "subprocess_run 2 (demo_script (\<lambda>n. crashing None)) demo_run_opts demo_policy
     = Some (demo_crash_events, Some (ProcessExit 1))"
proof -
  have "MinBackoff demo_policy = Second" by (simp add: demo_policy_def)
  then show ?thesis by (simp only: demo_runs demo_crash_loop) (simp add: demo_crash_events_def)
qed

lemma demo_script_simps [simp]: "rs_attempts (demo_script as) = as"
  by (simp add: demo_script_def)

lemma run_is_orderly_witness:
  "\<exists>st. monitor_run demo_crash_events \<lparr>m_healthy = False, m_child = False, m_stopped = False\<rparr>
    = Some \<lparr>m_healthy = False, m_child = False, m_stopped = st\<rparr>"
  by (rule run_is_orderly [OF _ demo_crash_run]) (simp add: attempt_ok_def)

lemma backoff_doubles_up_to_max_witness: "sint (sleeps demo_crash_events ! 0) = sint Second"
proof -
  have "sint (MinBackoff demo_policy) = 1000000000" "sint (MaxBackoff demo_policy) = 60000000000"
    by (simp_all add: demo_policy_def Second_def Minute_def)
  moreover have "0 < length (sleeps demo_crash_events)"
    by (simp add: demo_crash_events_def crash_events_def sleeps_def)
  ultimately show ?thesis
    using backoff_doubles_up_to_max [OF _ _ _ _ demo_crash_run, of 0] by (simp add: demo_policy_def)
qed

lemma run_returns_within_retries_witness:
  "\<exists>evs err. subprocess_run 2 (demo_script (\<lambda>n. crashing None)) demo_run_opts demo_policy = Some (evs, err)
     \<and> length (starts evs) \<le> 2"
  using run_returns_within_retries [of demo_policy demo_run_opts "demo_script (\<lambda>n. crashing None)"]
  by (simp add: demo_policy_def only_dynamic_def demo_run_opts_def numeral_eq_Suc del: run_loop.simps)

lemma run_stops_dynamic_backends_witness: "EvStopDynamic \<in> set demo_crash_events"
  by (rule run_stops_dynamic_backends [OF demo_crash_run])
    (simp_all add: demo_crash_events_def stops_on_return_def)



section \<open>The default policy\<close>

lemma run_loop_no_retry:
  assumes "MaxRetries rp = 0" and "run_loop fuel rp binds script 0 b = Some (evs, err)"
  shows "sleeps evs = []"
proof (cases fuel)
  case 0
  with assms show ?thesis by simp
next
  case (Suc f)
  have d: "sleeps evs' = [] \<and> out \<noteq> Again" if "retry_decision rp b a 0 e = (evs', out)" for a e evs' out
    using that assms(1) by (auto simp: retry_decision_def split: if_splits option.splits)
  have "sleeps evs' = [] \<and> out \<noteq> Again" if "run_attempt rp binds b (script 0) 0 = Some (evs', out)" for evs' out
    using that unfolding run_attempt_def
    by (auto simp: Let_def dest!: d split: option.splits prod.splits if_splits)
  with assms(2) Suc show ?thesis by (auto split: option.splits outcome.splits)
qed

text \<open>With the restart policy that \<open>validate\<close> fills in when none is given, a static
  runtime that crashes is never restarted: there is at most one attempt and no backoff
  sleep, so the default backoffs of one second and one minute are never used.\<close>

lemma default_policy_never_restarts:
  assumes "o_RestartPolicy opts = None" and "validate opts = (opts', None)" and "o_RestartPolicy opts' = Some rp"
    and "subprocess_run fuel rs opts' rp = Some (evs, err)"
  shows "length (starts evs) \<le> 1 \<and> sleeps evs = []"
proof -
  have "o_RestartPolicy opts' = o_RestartPolicy (default_options opts)"
    using assms(2) by (cases rule: validate_okE) simp_all
  then have mr: "MaxRetries rp = 0"
    using assms(1,3) by (auto simp: default_options_def Let_def split: if_splits)
  from starts_of_run [OF assms(4)] show ?thesis
  proof (elim disjE exE conjE)
    fix binds evs'
    assume r: "starts evs = starts evs'" "sleeps evs = sleeps evs'"
      "run_loop fuel rp binds (rs_attempts rs) 0 (MinBackoff rp) = Some (evs', err)"
    with run_loop_no_retry [OF mr r(3)] run_loop_starts_bound [of rp fuel binds "rs_attempts rs" 0 "MinBackoff rp" evs' err] mr
    show ?thesis by simp
  qed simp
qed

lemma demo_validated: "validate demo_run_opts = (fst (validate demo_run_opts), None)"
proof -
  have "valid_endpoint (b_Address demo_backend)" "TrimSpace (b_Name demo_backend) \<noteq> []"
      "TrimSpace (b_Address demo_backend) = b_Address demo_backend"
    by code_simp+
  then have "snd (validate demo_run_opts) = None"
    by (simp add: validate_accepts_iff demo_run_opts_def acceptable_backend_def demo_backend_def)
  then show ?thesis by (metis prod.collapse)
qed

lemma default_policy_never_restarts_witness:
  "\<exists>rp evs err. subprocess_run 1 (demo_script (\<lambda>n. crashing None)) (fst (validate demo_run_opts)) rp
     = Some (evs, err) \<and> length (starts evs) \<le> 1 \<and> sleeps evs = []"
proof -
  let ?rp = "\<lparr>MinBackoff = Second, MaxBackoff = Minute, MaxRetries = 0\<rparr>"
  have p: "o_RestartPolicy demo_run_opts = None" by (simp add: demo_run_opts_def)
  have "o_RestartPolicy (fst (validate demo_run_opts)) = o_RestartPolicy (default_options demo_run_opts)"
    using demo_validated by (cases rule: validate_okE) simp_all
  then have rp: "o_RestartPolicy (fst (validate demo_run_opts)) = Some ?rp"
    by (simp add: demo_run_opts_def default_options_def)
  have "\<not> only_dynamic (fst (validate demo_run_opts))"
    using demo_validated
  proof (cases rule: validate_okE)
    case (some bs)
    from validate_backends_ok [OF some(2)] have "lookup_names bs = lookup_names [demo_backend]"
      by (simp add: demo_run_opts_def)
    with some(3) show ?thesis by (auto simp: only_dynamic_def)
  qed (simp add: demo_run_opts_def)
  then obtain evs err where r: "subprocess_run 1 (demo_script (\<lambda>n. crashing None)) (fst (validate demo_run_opts)) ?rp
      = Some (evs, err)"
    using run_returns_within_retries [of ?rp "fst (validate demo_run_opts)" "demo_script (\<lambda>n. crashing None)"]
    by auto
  from default_policy_never_restarts [OF p demo_validated rp r] r show ?thesis by blast
qed

section \<open>The addresses of the static backends\<close>

text \<open>C27: The static runtime is told to bind exactly the addresses that the server then
  gives out: in the configuration written for it every backend, in order, has its name and
  the address every spelling of that name resolves to.\<close>

theorem static_runtime_binds_published_addresses:
  assumes "wf_options opts"
    and "loopbackBackendAddresses env t (o_Bind opts) (o_Backends opts) = (Inr m, t')"
    and "nativeConfigJSONWithBackendBinds opts m = Inr text"
    and "i < length (o_Backends opts)"
    and "backendLookupName q = backendLookupName (b_Name (o_Backends opts ! i))"
  shows "\<exists>cfg. read_config text = Some cfg \<and> n_Name (n_Backends cfg ! i) = b_Name (o_Backends opts ! i)
    \<and> lookup_address m q = Inr (n_Bind (n_Backends cfg ! i))"
proof -
  let ?bs = "o_Backends opts"
  have d: "distinct (lookup_names ?bs)" using assms(1) by (simp add: wf_options_def)
  from loopbackBackendAddresses_ok [OF assms(2)] obtain as where
    as: "length as = length ?bs" "m = store_all ?bs as Map.empty" by blast
  have "backend_bind m (?bs ! i) = as ! i"
    using store_all_lookup [OF as(1) d assms(4)] by (simp add: backend_bind_def map_index_def as(2) Let_def)
  with lookup_store_all [OF as(1) d assms(4,5)] as(2)
  have "lookup_address m q = Inr (backend_bind m (?bs ! i))" by simp
  moreover have "read_config text = Some (native_config_of opts m)"
    using assms(3) read_config_marshal by (auto simp: nativeConfigJSONWithBackendBinds_def)
  ultimately show ?thesis
    using assms(4) by (auto simp: native_config_of_def to_native_def)
qed

lemma demo_wf: "wf_options (demo_run_opts\<lparr>o_RestartPolicy := Some demo_policy\<rparr>)"
proof -
  have "wf_backend demo_backend" by code_simp
  then show ?thesis
    by (simp add: wf_options_def demo_run_opts_def Second_def)
qed

lemma static_runtime_binds_published_addresses_witness:
  "\<exists>cfg :: native_config. n_Name (n_Backends cfg ! 0) = ''lobby''
     \<and> lookup_address (storeBackendAddress Map.empty ''lobby'' demo_listener) ''LOBBY'' = Inr (n_Bind (n_Backends cfg ! 0))"
proof -
  let ?o = "demo_run_opts\<lparr>o_RestartPolicy := Some demo_policy\<rparr>"
  let ?m = "storeBackendAddress Map.empty ''lobby'' demo_listener"
  have o: "o_Bind ?o = default_bind" "o_Backends ?o = [demo_backend]" by (simp_all add: demo_run_opts_def)
  have q: "backendLookupName ''LOBBY'' = backendLookupName (b_Name (o_Backends ?o ! 0))"
    unfolding o by code_simp
  have n: "b_Name (o_Backends ?o ! 0) = ''lobby''" by (simp add: o demo_backend_def)
  have m: "loopbackBackendAddresses demo_net 0 (o_Bind ?o) (o_Backends ?o) = (Inr ?m, 1)"
    unfolding o by (rule demo_addresses)
  have js: "nativeConfigJSONWithBackendBinds ?o ?m = Inr (marshal_config (native_config_of ?o ?m))"
    by (simp add: nativeConfigJSONWithBackendBinds_def)
  have len: "0 < length (o_Backends ?o)" by (simp add: o)
  from static_runtime_binds_published_addresses [OF demo_wf m js len q] show ?thesis
  proof (elim exE conjE)
    fix cfg :: native_config
    assume cfg: "n_Name (n_Backends cfg ! 0) = b_Name (o_Backends ?o ! 0)"
      "lookup_address ?m ''LOBBY'' = Inr (n_Bind (n_Backends cfg ! 0))"
    show ?thesis by (rule exI [of _ cfg], rule conjI [OF trans [OF cfg(1) n] cfg(2)])
  qed
qed

text \<open>Nothing makes the ports of two static backends differ: each probe's listener is
  closed before the next probe, so the system may hand out the same port again, and the
  two backends are then published at one address.\<close>

lemma static_backends_may_share_an_address:
  "\<exists>m t. loopbackBackendAddresses demo_net 0 default_bind [demo_backend, demo_backend\<lparr>b_Name := ''survival''\<rparr>] = (Inr m, t)
     \<and> lookup_address m ''lobby'' = Inr demo_listener \<and> lookup_address m ''survival'' = Inr demo_listener
     \<and> backendLookupName ''lobby'' \<noteq> backendLookupName ''survival''"
proof -
  have "SplitHostPort default_bind = Inr (''127.0.0.1'', ''0'')" by code_simp
  moreover have "backendLookupName ''lobby'' = ''lobby''" "backendLookupName ''survival'' = ''survival''"
    by code_simp+
  ultimately show ?thesis
    by (simp add: loopbackBackendAddresses_def loopbackBackendAddress_def concreteLoopbackBind_def demo_net_def
        demo_backend_def Let_def lookup_address_def storeBackendAddress_def)
qed

end
