(* ===== verification/Interleaving.thy ===== *)
theory Interleaving
  imports Subprocess
begin

text \<open>
  The subprocess runner under concurrency. Calls of \<open>addBackend\<close> are threads: each
  is at a phase between two sections of the code, and one step of the system runs one
  section of one thread, of \<open>removeBackend\<close>, of the goroutine that watches a published
  runtime, of the runner's main loop (\<open>healthy\<close> going up and down, and
  \<open>stopDynamicBackends\<close>), or lets a process exit. A failing \<open>addBackend\<close> runs the
  clean-up calls of its return path one step at a time (\<open>PTail\<close>).

  The answers of the outside (addresses, start errors, readiness, ownership, how a stop
  ends) are part of the step's label, so a step is a function of label and state. The
  system covers one run of the runner: \<open>run_over\<close> marks that the run has passed its
  last \<open>stopDynamicBackends\<close>, after which \<open>healthy\<close> stays down.
\<close>

section \<open>Threads and labels\<close>

datatype tail =
    TStop proc
  | TUnpend proc
  | TUnpendCheck proc
  | TReleaseReservation string release
  | TCleanupAdding
  | TRemoveFile string

datatype phase =
    PAdding
  | PReserved string release
  | PConfigured string release string
  | PWaiting proc
  | PReady proc
  | POwned proc
  | PTail "tail list" go_error
  | PDone "(go_error, string) result"

record system = runner +
  adds :: "nat \<rightharpoonup> string \<times> phase"
  stopping :: "proc set"
  watching :: "(string \<times> proc) set"
  run_over :: bool

datatype label =
    LBegin nat string
  | LReserve nat "nat \<Rightarrow> (string \<times> string) list" "nat \<Rightarrow> (string \<times> proc) list"
  | LConfig nat "(go_error, string) result"
  | LStart nat "go_error option"
  | LWait nat "go_error option"
  | LOwner nat "bool option"
  | LPublish nat
  | LTail nat stop_outcome
  | LRemove string
  | LStopped proc stop_outcome
  | LExit nat
  | LWatch string proc
  | LHealthy bool
  | LStopAll "(string \<times> proc) list" "(string \<times> proc) list"

definition set_phase :: "nat \<Rightarrow> string \<Rightarrow> phase \<Rightarrow> system \<Rightarrow> system" where
  "set_phase t name ph s = s\<lparr>adds := (adds s)(t \<mapsto> (name, ph))\<rparr>"

text \<open>The next clean-up call of a failing add. \<open>TUnpendCheck\<close> is the section after a
  failed wait, which replaces the error when the runner is down by then.\<close>

fun run_tail :: "string \<Rightarrow> stop_outcome \<Rightarrow> tail \<Rightarrow> go_error \<Rightarrow> system \<Rightarrow> go_error \<times> system" where
  "run_tail key out (TStop p) e s = (e, snd (stopSubprocessBackend out p s))"
| "run_tail key out (TUnpend p) e s = (e, unpend key p s)"
| "run_tail key out (TUnpendCheck p) e s =
     (if \<not> healthy s \<or> bin s = [] then Sentinel ErrNotStarted else e, unpend key p s)"
| "run_tail key out (TReleaseReservation addr rel) e s = (e, releaseReservation key addr rel s)"
| "run_tail key out TCleanupAdding e s = (e, cleanupAdding key s)"
| "run_tail key out (TRemoveFile cfg) e s = (e, s\<lparr>files := files s - {cfg}\<rparr>)"

definition stop_possible :: "stop_outcome \<Rightarrow> proc \<Rightarrow> system \<Rightarrow> bool" where
  "stop_possible out p s = (case out of AlreadyExited err \<Rightarrow> p_id p \<notin> live s | _ \<Rightarrow> True)"

fun tail_possible :: "stop_outcome \<Rightarrow> tail \<Rightarrow> system \<Rightarrow> bool" where
  "tail_possible out (TStop p) s = stop_possible out p s"
| "tail_possible out _ s = True"

section \<open>Steps\<close>

definition add_step :: "net_env \<Rightarrow> label \<Rightarrow> nat \<Rightarrow> string \<Rightarrow> phase \<Rightarrow> system \<Rightarrow> system option" where
  "add_step env l t name ph s =
     (let key = backendLookupName name in
      case (l, ph) of
        (LReserve _ bs ps, PAdding) \<Rightarrow>
          if (\<forall>n. enumerates (bs n) (backends s)) \<and> (\<forall>n. enumerates (ps n) (pending s)) then
            (case reserveDynamicAddressLocked env bs ps key (o_Bind (r_opts s)) s of
               (Inl e, s1) \<Rightarrow> Some (set_phase t name (PTail [TCleanupAdding] (Wrapped e [name])) s1)
             | (Inr (addr, rel), s1) \<Rightarrow> Some (set_phase t name (PReserved addr rel) s1))
          else None
      | (LConfig _ res, PReserved addr rel) \<Rightarrow>
          (case res of
             Inl e \<Rightarrow> Some (set_phase t name
                        (PTail [TReleaseReservation addr rel, TCleanupAdding] e) s)
           | Inr cfg \<Rightarrow>
               if cfg \<in> files s then None
               else Some (set_phase t name (PConfigured addr rel cfg)
                            (s\<lparr>files := insert cfg (files s)\<rparr>)))
      | (LStart _ start_err, PConfigured addr rel cfg) \<Rightarrow>
          (case addBackend_start start_err name addr rel cfg s of
             (Inl (True, e), s1) \<Rightarrow>
               Some (set_phase t name (PTail [TReleaseReservation addr rel, TRemoveFile cfg] e) s1)
           | (Inl (False, e), s1) \<Rightarrow>
               Some (set_phase t name
                 (PTail [TReleaseReservation addr rel, TCleanupAdding, TRemoveFile cfg] e) s1)
           | (Inr p, s1) \<Rightarrow> Some (set_phase t name (PWaiting p) s1))
      | (LWait _ err, PWaiting p) \<Rightarrow>
          (case err of
             None \<Rightarrow> Some (set_phase t name (PReady p) s)
           | Some e \<Rightarrow> Some (set_phase t name
               (PTail [TStop p, TUnpendCheck p, TReleaseReservation (p_addr p) (p_release p)] e) s))
      | (LOwner _ verdict, PReady p) \<Rightarrow>
          if dynamicAddressOwned (Some p) verdict then Some (set_phase t name (POwned p) s)
          else Some (set_phase t name
            (PTail [TStop p, TUnpend p, TReleaseReservation (p_addr p) (p_release p)]
               (Wrapped (Sentinel ErrAddressNotOwned) [name, p_addr p])) s)
      | (LPublish _, POwned p) \<Rightarrow>
          (case addBackend_publish name p s of
             (True, s1) \<Rightarrow>
               Some ((set_phase t name (PDone (Inr (p_addr p))) s1)
                       \<lparr>watching := insert (key, p) (watching s1)\<rparr>)
           | (False, s1) \<Rightarrow>
               Some (set_phase t name
                 (PTail [TStop p, TReleaseReservation (p_addr p) (p_release p)]
                    (Sentinel ErrNotStarted)) s1))
      | (LTail _ out, PTail (u # us) e) \<Rightarrow>
          if tail_possible out u s then
            (case run_tail key out u e s of (e1, s1) \<Rightarrow>
               Some (set_phase t name (if us = [] then PDone (Inl e1) else PTail us e1) s1))
          else None
      | _ \<Rightarrow> None)"

definition sub_step :: "net_env \<Rightarrow> label \<Rightarrow> system \<Rightarrow> system option" where
  "sub_step env l s =
     (case l of
        LBegin t name \<Rightarrow>
          if adds s t \<noteq> None \<or> TrimSpace name \<noteq> name \<or> name = [] then None
          else (case addBackend_begin name s of
                  Inl e \<Rightarrow> Some (set_phase t name (PDone (Inl e)) s)
                | Inr s1 \<Rightarrow> Some (set_phase t name PAdding s1))
      | LRemove name \<Rightarrow>
          (case removeBackend_begin name s of
             (Inl e, s1) \<Rightarrow> Some s1
           | (Inr p, s1) \<Rightarrow> Some (s1\<lparr>stopping := insert p (stopping s1)\<rparr>))
      | LStopped p out \<Rightarrow>
          if p \<in> stopping s \<and> stop_possible out p s then
            Some ((snd (stopSubprocessBackend out p s))\<lparr>stopping := stopping s - {p}\<rparr>)
          else None
      | LExit i \<Rightarrow> Some (s\<lparr>live := live s - {i}\<rparr>)
      | LWatch key p \<Rightarrow>
          if (key, p) \<in> watching s \<and> p_id p \<notin> live s then
            Some ((dynamicBackendExited key p s)\<lparr>watching := watching s - {(key, p)}\<rparr>)
          else None
      | LHealthy b \<Rightarrow> if run_over s then None else Some (s\<lparr>healthy := b\<rparr>)
      | LStopAll ds ps \<Rightarrow>
          if \<not> healthy s \<and> enumerates ds (dynamic s) \<and> enumerates ps (pending s) then
            (case stopDynamicBackends_collect ds ps s of (procs, s1) \<Rightarrow>
               Some (s1\<lparr>stopping := stopping s1 \<union> set procs, run_over := True\<rparr>))
          else None
      | LReserve t _ _ \<Rightarrow> (case adds s t of None \<Rightarrow> None | Some (n, ph) \<Rightarrow> add_step env l t n ph s)
      | LConfig t _ \<Rightarrow> (case adds s t of None \<Rightarrow> None | Some (n, ph) \<Rightarrow> add_step env l t n ph s)
      | LStart t _ \<Rightarrow> (case adds s t of None \<Rightarrow> None | Some (n, ph) \<Rightarrow> add_step env l t n ph s)
      | LWait t _ \<Rightarrow> (case adds s t of None \<Rightarrow> None | Some (n, ph) \<Rightarrow> add_step env l t n ph s)
      | LOwner t _ \<Rightarrow> (case adds s t of None \<Rightarrow> None | Some (n, ph) \<Rightarrow> add_step env l t n ph s)
      | LPublish t \<Rightarrow> (case adds s t of None \<Rightarrow> None | Some (n, ph) \<Rightarrow> add_step env l t n ph s)
      | LTail t _ \<Rightarrow> (case adds s t of None \<Rightarrow> None | Some (n, ph) \<Rightarrow> add_step env l t n ph s))"

text \<open>The start of a run: the static addresses are published, nothing is dynamic.\<close>

definition fresh_run :: "string \<Rightarrow> options \<Rightarrow> (string \<rightharpoonup> string) \<Rightarrow> system" where
  "fresh_run b opts static =
     \<lparr>healthy = True, backends = static, bin = b, r_opts = opts, dynamic = Map.empty,
      adding = {}, pending = Map.empty, reserving = Map.empty, live = {}, files = {},
      released = [], next_id = 0, clock = 0,
      adds = Map.empty, stopping = {}, watching = {}, run_over = False\<rparr>"

text \<open>Runs whose steps all satisfy a condition on label and state.\<close>

inductive reach :: "net_env \<Rightarrow> (label \<Rightarrow> system \<Rightarrow> bool) \<Rightarrow> system \<Rightarrow> system \<Rightarrow> bool"
  for env ok s0 where
    reach_start: "reach env ok s0 s0"
  | reach_step: "reach env ok s0 s \<Longrightarrow> ok l s \<Longrightarrow> sub_step env l s = Some s' \<Longrightarrow> reach env ok s0 s'"

fun run_labels :: "net_env \<Rightarrow> label list \<Rightarrow> system \<Rightarrow> system option" where
  "run_labels env [] s = Some s"
| "run_labels env (l # ls) s =
     (case sub_step env l s of None \<Rightarrow> None | Some s1 \<Rightarrow> run_labels env ls s1)"

fun finished :: "phase \<Rightarrow> bool" where
  "finished (PDone res) = True"
| "finished _ = False"

text \<open>The two conditions the theorems use: callers do not add the same backend
  concurrently, and signals reach the processes they are sent to.\<close>

definition serial :: "label \<Rightarrow> system \<Rightarrow> bool" where
  "serial l s =
     (case l of
        LBegin t name \<Rightarrow>
          (\<forall>t' n ph. adds s t' = Some (n, ph) \<longrightarrow> backendLookupName n = backendLookupName name
             \<longrightarrow> finished ph)
      | _ \<Rightarrow> True)"

definition signals_ok :: "label \<Rightarrow> system \<Rightarrow> bool" where
  "signals_ok l s =
     (case l of LTail t out \<Rightarrow> stop_ends_process out | LStopped p out \<Rightarrow> stop_ends_process out
      | _ \<Rightarrow> True)"

lemma reach_trans: "reach env ok s1 s2 \<Longrightarrow> reach env ok s0 s1 \<Longrightarrow> reach env ok s0 s2"
  by (induction rule: reach.induct) (auto intro: reach.intros)

lemma reach_run_labels:
  "run_labels env ls s = Some s' \<Longrightarrow> reach env (\<lambda>l s. True) s s'"
proof (induction ls arbitrary: s)
  case Nil
  then show ?case by (simp add: reach_start)
next
  case (Cons l ls)
  then obtain s1 where s1: "sub_step env l s = Some s1" "run_labels env ls s1 = Some s'"
    by (auto split: option.splits)
  from Cons.IH [OF s1(2)] show ?case
    by (rule reach_trans) (rule reach_step [OF reach_start _ s1(1)], simp)
qed

end
