(* ===== verification/RegistryInv.thy ===== *)
theory RegistryInv
  imports Interleaving
begin

text \<open>
  The invariant of the concurrent subprocess runner, when callers do not add one backend
  twice at the same time (\<open>serial\<close>). It is a conjunction of predicates, each over the
  few state components it is about, so that a step has to re-establish only the
  conjuncts whose components it writes.
\<close>

section \<open>The conjuncts\<close>

type_synonym threads = "nat \<rightharpoonup> string \<times> phase"

fun before_start :: "phase \<Rightarrow> bool" where
  "before_start PAdding = True"
| "before_start (PReserved a rel) = True"
| "before_start (PConfigured a rel cfg) = True"
| "before_start _ = False"

fun cleans_adding :: "phase \<Rightarrow> bool" where
  "cleans_adding (PTail us e) = (TCleanupAdding \<in> set us)"
| "cleans_adding ph = before_start ph"

fun runs_proc :: "proc \<Rightarrow> phase \<Rightarrow> bool" where
  "runs_proc p (PWaiting q) = (p = q)"
| "runs_proc p (PReady q) = (p = q)"
| "runs_proc p (POwned q) = (p = q)"
| "runs_proc p _ = False"

fun unpends :: "proc \<Rightarrow> phase \<Rightarrow> bool" where
  "unpends p (PTail us e) = (TUnpend p \<in> set us \<or> TUnpendCheck p \<in> set us)"
| "unpends p ph = runs_proc p ph"

fun stops :: "proc \<Rightarrow> phase \<Rightarrow> bool" where
  "stops p (PTail us e) = (TStop p \<in> set us)"
| "stops p ph = runs_proc p ph"

fun reserved_addr :: "phase \<Rightarrow> string option" where
  "reserved_addr (PReserved a rel) = Some a"
| "reserved_addr (PConfigured a rel cfg) = Some a"
| "reserved_addr _ = None"

text \<open>At most one unfinished add per key.\<close>

definition inv_keys :: "threads \<Rightarrow> bool" where
  "inv_keys A \<longleftrightarrow>
     (\<forall>t n ph t' n' ph'. A t = Some (n, ph) \<longrightarrow> A t' = Some (n', ph') \<longrightarrow> \<not> finished ph \<longrightarrow>
        \<not> finished ph' \<longrightarrow> backendLookupName n = backendLookupName n' \<longrightarrow> t = t')"

definition inv_adding :: "threads \<Rightarrow> string set \<Rightarrow> bool" where
  "inv_adding A D \<longleftrightarrow>
     (\<forall>k \<in> D. \<exists>t n ph. A t = Some (n, ph) \<and> backendLookupName n = k \<and> cleans_adding ph)"

definition inv_pending :: "threads \<Rightarrow> (string \<rightharpoonup> proc) \<Rightarrow> bool" where
  "inv_pending A P \<longleftrightarrow>
     (\<forall>k p. P k = Some p \<longrightarrow>
        (\<exists>t n ph. A t = Some (n, ph) \<and> backendLookupName n = k \<and> unpends p ph))"

text \<open>The key of an add that is still to publish is neither published nor dynamic.\<close>

definition inv_free :: "threads \<Rightarrow> (string \<rightharpoonup> string) \<Rightarrow> (string \<rightharpoonup> proc) \<Rightarrow> bool" where
  "inv_free A B D \<longleftrightarrow>
     (\<forall>t n ph. A t = Some (n, ph) \<longrightarrow> before_start ph \<or> (\<exists>p. runs_proc p ph) \<longrightarrow>
        backendLookupName n \<notin> dom B \<and> backendLookupName n \<notin> dom D)"

definition inv_alias :: "(string \<rightharpoonup> string) \<Rightarrow> bool" where
  "inv_alias B \<longleftrightarrow> (\<forall>n a. B n = Some a \<longrightarrow> B (backendLookupName n) = Some a)"

definition inv_dynamic :: "(string \<rightharpoonup> string) \<Rightarrow> (string \<rightharpoonup> proc) \<Rightarrow> bool" where
  "inv_dynamic B D \<longleftrightarrow>
     (\<forall>k p. D k = Some p \<longrightarrow>
        backendLookupName (p_name p) = k \<and> B k = Some (p_addr p) \<and> B (p_name p) = Some (p_addr p)
        \<and> (\<forall>n \<in> dom B. backendLookupName n = k \<longrightarrow> n = p_name p \<or> n = k))"

definition inv_names :: "threads \<Rightarrow> bool" where
  "inv_names A \<longleftrightarrow> (\<forall>t n ph p. A t = Some (n, ph) \<longrightarrow> runs_proc p ph \<longrightarrow> p_name p = n)"

definition inv_reserved :: "threads \<Rightarrow> (string \<rightharpoonup> string) \<Rightarrow> bool \<Rightarrow> bool" where
  "inv_reserved A R over \<longleftrightarrow>
     (\<not> over \<longrightarrow> (\<forall>t n ph a. A t = Some (n, ph) \<longrightarrow> reserved_addr ph = Some a \<longrightarrow>
        R a = Some (backendLookupName n)))"

text \<open>Who an address is promised to.\<close>

definition claims ::
  "(string \<rightharpoonup> string) \<Rightarrow> (string \<rightharpoonup> proc) \<Rightarrow> (string \<rightharpoonup> string) \<Rightarrow> (string \<times> string) set" where
  "claims B P R = {(k, a). (\<exists>n. B n = Some a \<and> k = backendLookupName n)
     \<or> (\<exists>p. P k = Some p \<and> a = p_addr p) \<or> R a = Some k}"

definition one_owner :: "(string \<times> string) set \<Rightarrow> bool" where
  "one_owner C \<longleftrightarrow> (\<forall>k k' a. (k, a) \<in> C \<longrightarrow> (k', a) \<in> C \<longrightarrow> k = k')"

definition inv_over :: "system \<Rightarrow> bool" where
  "inv_over s \<longleftrightarrow> (run_over s \<longrightarrow> \<not> healthy s \<and> dynamic s = Map.empty \<and> pending s = Map.empty)"

definition reg_inv :: "system \<Rightarrow> bool" where
  "reg_inv s \<longleftrightarrow>
     inv_keys (adds s) \<and> inv_adding (adds s) (adding s) \<and> inv_pending (adds s) (pending s)
     \<and> inv_free (adds s) (backends s) (dynamic s) \<and> inv_alias (backends s)
     \<and> inv_dynamic (backends s) (dynamic s) \<and> inv_names (adds s)
     \<and> inv_reserved (adds s) (reserving s) (run_over s)
     \<and> one_owner (claims (backends s) (pending s) (reserving s)) \<and> inv_over s"

text \<open>Every running process is somebody's to stop.\<close>

definition inv_live :: "system \<Rightarrow> bool" where
  "inv_live s \<longleftrightarrow>
     (\<forall>i \<in> live s. \<exists>p. p_id p = i \<and>
        ((\<exists>k. dynamic s k = Some p) \<or> p \<in> stopping s
         \<or> (\<exists>t n ph. adds s t = Some (n, ph) \<and> stops p ph)))"

lemma reg_invD:
  assumes "reg_inv s"
  shows "inv_keys (adds s)" "inv_adding (adds s) (adding s)" "inv_pending (adds s) (pending s)"
    "inv_free (adds s) (backends s) (dynamic s)" "inv_alias (backends s)"
    "inv_dynamic (backends s) (dynamic s)" "inv_names (adds s)"
    "inv_reserved (adds s) (reserving s) (run_over s)"
    "one_owner (claims (backends s) (pending s) (reserving s))" "inv_over s"
  using assms by (simp_all add: reg_inv_def)

lemma inv_pendingE:
  assumes "inv_pending A P" and "P k = Some p"
  obtains t n ph where "A t = Some (n, ph)" "backendLookupName n = k" "unpends p ph"
  using assms unfolding inv_pending_def by blast

lemma inv_freeD:
  assumes "inv_free A B D" and "A t = Some (n, ph)" and "before_start ph \<or> (\<exists>p. runs_proc p ph)"
  shows "backendLookupName n \<notin> dom B" "backendLookupName n \<notin> dom D"
  using assms unfolding inv_free_def by blast+

lemma inv_aliasD: "inv_alias B \<Longrightarrow> B n = Some a \<Longrightarrow> B (backendLookupName n) = Some a"
  unfolding inv_alias_def by blast

lemma inv_dynamicD:
  assumes "inv_dynamic B D" and "D k = Some p"
  shows "backendLookupName (p_name p) = k" "B k = Some (p_addr p)" "B (p_name p) = Some (p_addr p)"
    "n \<in> dom B \<Longrightarrow> backendLookupName n = k \<Longrightarrow> n = p_name p \<or> n = k"
  using assms unfolding inv_dynamic_def by blast+

section \<open>Moving one thread\<close>

lemma keys_move:
  assumes "inv_keys A" and "A t = Some (n, ph)" and "\<not> finished ph"
  shows "inv_keys (A(t \<mapsto> (n, ph')))"
  using assms unfolding inv_keys_def by (auto split: if_splits) 

lemma keys_new:
  assumes "inv_keys A" and "A t = None"
    and "\<forall>t' n' ph'. A t' = Some (n', ph') \<longrightarrow> backendLookupName n' = backendLookupName n \<longrightarrow> finished ph'"
  shows "inv_keys (A(t \<mapsto> (n, ph)))"
  using assms unfolding inv_keys_def by (auto split: if_splits)

lemma adding_move:
  assumes "inv_adding A D" and "A t = Some (n, ph)" and "D' \<subseteq> D"
    and "cleans_adding ph \<Longrightarrow> cleans_adding ph' \<or> backendLookupName n \<notin> D'"
  shows "inv_adding (A(t \<mapsto> (n, ph'))) D'"
  unfolding inv_adding_def
proof
  fix k assume "k \<in> D'"
  then obtain t1 n1 ph1 where 1: "A t1 = Some (n1, ph1)" "backendLookupName n1 = k" "cleans_adding ph1"
    using assms(1,3) unfolding inv_adding_def by blast
  show "\<exists>t1 n1 ph1. (A(t \<mapsto> (n, ph'))) t1 = Some (n1, ph1) \<and> backendLookupName n1 = k \<and> cleans_adding ph1"
  proof (cases "t1 = t")
    case True
    with 1 assms(2,4) \<open>k \<in> D'\<close> show ?thesis by (intro exI [of _ t]) auto
  next
    case False
    with 1 show ?thesis by (intro exI [of _ t1]) auto
  qed
qed

lemma pending_move:
  assumes "inv_pending A P" and "A t = Some (n, ph)" and "\<And>k p. P' k = Some p \<Longrightarrow> P k = Some p"
    and "\<And>p. unpends p ph \<Longrightarrow> unpends p ph' \<or> P' (backendLookupName n) \<noteq> Some p"
  shows "inv_pending (A(t \<mapsto> (n, ph'))) P'"
  unfolding inv_pending_def
proof (intro allI impI)
  fix k p assume P': "P' k = Some p"
  then obtain t1 n1 ph1 where 1: "A t1 = Some (n1, ph1)" "backendLookupName n1 = k" "unpends p ph1"
    using assms(1,3) unfolding inv_pending_def by blast
  show "\<exists>t1 n1 ph1. (A(t \<mapsto> (n, ph'))) t1 = Some (n1, ph1) \<and> backendLookupName n1 = k \<and> unpends p ph1"
  proof (cases "t1 = t")
    case True
    with 1 assms(2,4) P' show ?thesis by (intro exI [of _ t]) auto
  next
    case False
    with 1 show ?thesis by (intro exI [of _ t1]) auto
  qed
qed

lemma free_move:
  assumes "inv_free A B D" and "A t = Some (n, ph)"
    and "before_start ph' \<or> (\<exists>p. runs_proc p ph') \<Longrightarrow> before_start ph \<or> (\<exists>p. runs_proc p ph)"
  shows "inv_free (A(t \<mapsto> (n, ph'))) B D"
  using assms unfolding inv_free_def by (metis (no_types, lifting) map_upd_Some_unfold prod.inject)

lemma names_move:
  assumes "inv_names A" and "A t = Some (n, ph)" and "\<And>p. runs_proc p ph' \<Longrightarrow> runs_proc p ph"
  shows "inv_names (A(t \<mapsto> (n, ph')))"
  using assms unfolding inv_names_def by (metis (no_types, lifting) map_upd_Some_unfold prod.inject)

lemma reserved_move:
  assumes "inv_reserved A R over" and "A t = Some (n, ph)"
    and "\<And>a. reserved_addr ph' = Some a \<Longrightarrow> reserved_addr ph = Some a"
  shows "inv_reserved (A(t \<mapsto> (n, ph'))) R over"
  using assms unfolding inv_reserved_def by (metis (no_types, lifting) map_upd_Some_unfold prod.inject)

text \<open>Shrinking the shared state.\<close>

lemma one_owner_mono: "one_owner C \<Longrightarrow> C' \<subseteq> C \<Longrightarrow> one_owner C'"
  unfolding one_owner_def by blast

lemma claims_mono:
  assumes "\<And>n a. B' n = Some a \<Longrightarrow> B n = Some a" and "\<And>k p. P' k = Some p \<Longrightarrow> P k = Some p"
    and "\<And>a k. R' a = Some k \<Longrightarrow> R a = Some k"
  shows "claims B' P' R' \<subseteq> claims B P R"
  using assms unfolding claims_def by blast

lemma free_mono:
  assumes "inv_free A B D" and "dom B' \<subseteq> dom B" and "dom D' \<subseteq> dom D"
  shows "inv_free A B' D'"
  using assms unfolding inv_free_def by blast

lemma pending_mono:
  assumes "inv_pending A P" and "\<And>k p. P' k = Some p \<Longrightarrow> P k = Some p"
  shows "inv_pending A P'"
  using assms unfolding inv_pending_def by blast

lemma adding_mono: "inv_adding A D \<Longrightarrow> D' \<subseteq> D \<Longrightarrow> inv_adding A D'"
  unfolding inv_adding_def by blast

lemma only_add_of_key:
  assumes "inv_keys A" and "A t = Some (n, ph)" and "\<not> finished ph"
    and "A t' = Some (n', ph')" and "backendLookupName n' = backendLookupName n" and "\<not> finished ph'"
  shows "t' = t \<and> n' = n \<and> ph' = ph"
  using assms unfolding inv_keys_def by (metis option.inject prod.inject)

lemma unpends_unfinished: "unpends p ph \<Longrightarrow> \<not> finished ph"
  by (cases ph) auto

lemma cleans_unfinished: "cleans_adding ph \<Longrightarrow> \<not> finished ph"
  by (cases ph) auto

text \<open>The pending entry of a key with an unfinished add belongs to that add.\<close>

lemma pending_owner:
  assumes "inv_keys A" and "inv_pending A P" and "A t = Some (n, ph)" and "\<not> finished ph"
    and "P (backendLookupName n) = Some p"
  shows "unpends p ph"
proof -
  obtain t1 n1 ph1 where "A t1 = Some (n1, ph1)" "backendLookupName n1 = backendLookupName n"
      "unpends p ph1"
    using assms(2,5) unfolding inv_pending_def by blast
  then show ?thesis using only_add_of_key [OF assms(1,3,4)] unpends_unfinished by blast
qed

section \<open>The operations on the shared state\<close>

lemma call_release_frame [simp]:
  "healthy (call_release rel r) = healthy r" "backends (call_release rel r) = backends r"
  "bin (call_release rel r) = bin r" "r_opts (call_release rel r) = r_opts r"
  "dynamic (call_release rel r) = dynamic r" "adding (call_release rel r) = adding r"
  "pending (call_release rel r) = pending r" "reserving (call_release rel r) = reserving r"
  "live (call_release rel r) = live r" "files (call_release rel r) = files r"
  "next_id (call_release rel r) = next_id r" "clock (call_release rel r) = clock r"
  by (simp_all add: call_release_def split: release.splits)

lemma call_release_system [simp]:
  "adds (call_release rel s) = adds s" "stopping (call_release rel s) = stopping s"
  "watching (call_release rel s) = watching s" "run_over (call_release rel s) = run_over s"
  by (simp_all add: call_release_def split: release.splits)

lemma releaseAddress_frame [simp]:
  "healthy (releaseAddress p s) = healthy s" "backends (releaseAddress p s) = backends s"
  "bin (releaseAddress p s) = bin s" "dynamic (releaseAddress p s) = dynamic s"
  "adding (releaseAddress p s) = adding s" "pending (releaseAddress p s) = pending s"
  "reserving (releaseAddress p s) = reserving s" "live (releaseAddress p s) = live s"
  "files (releaseAddress p s) = files s" "next_id (releaseAddress p s) = next_id s"
  by (simp_all add: releaseAddress_def)

lemma releaseAddress_system [simp]:
  "adds (releaseAddress p s) = adds s" "stopping (releaseAddress p s) = stopping s"
  "watching (releaseAddress p s) = watching s" "run_over (releaseAddress p s) = run_over s"
  by (simp_all add: releaseAddress_def)

lemma stop_frame [simp]:
  "healthy (snd (stopSubprocessBackend out p s)) = healthy s"
  "backends (snd (stopSubprocessBackend out p s)) = backends s"
  "bin (snd (stopSubprocessBackend out p s)) = bin s"
  "dynamic (snd (stopSubprocessBackend out p s)) = dynamic s"
  "adding (snd (stopSubprocessBackend out p s)) = adding s"
  "pending (snd (stopSubprocessBackend out p s)) = pending s"
  "reserving (snd (stopSubprocessBackend out p s)) = reserving s"
  "live (snd (stopSubprocessBackend out p s)) =
     (if stop_ends_process out then live s - {p_id p} else live s)"
  "files (snd (stopSubprocessBackend out p s)) = files s - {p_configPath p}"
  by (simp_all add: stopSubprocessBackend_def Let_def)

lemma stop_system [simp]:
  "adds (snd (stopSubprocessBackend out p s)) = adds s"
  "stopping (snd (stopSubprocessBackend out p s)) = stopping s"
  "watching (snd (stopSubprocessBackend out p s)) = watching s"
  "run_over (snd (stopSubprocessBackend out p s)) = run_over s"
  by (simp_all add: stopSubprocessBackend_def Let_def)

subsection \<open>The owner of an address\<close>

lemma find_SomeD: "find P xs = Some x \<Longrightarrow> x \<in> set xs \<and> P x"
  by (induction xs) (auto split: if_splits)

lemma find_NoneD: "find P xs = None \<Longrightarrow> \<forall>x \<in> set xs. \<not> P x"
  by (induction xs) (auto split: if_splits)

lemma addressOwner_None:
  assumes "enumerates bs (backends r)" and "enumerates ps (pending r)"
    and "addressOwnerLocked bs ps r a = None"
  shows "(k, a) \<notin> claims (backends r) (pending r) (reserving r)"
proof -
  have none: "find (\<lambda>(name, published). published = a) bs = None"
      "find (\<lambda>(key, p). p_addr p = a) ps = None" "reserving r a = None"
    using assms(3) by (auto simp: addressOwnerLocked_def split: option.splits)
  have "\<forall>n. backends r n \<noteq> Some a"
    using find_NoneD [OF none(1)] enumerates_set [OF assms(1)] by fastforce
  moreover have "\<forall>k p. pending r k = Some p \<longrightarrow> p_addr p \<noteq> a"
    using find_NoneD [OF none(2)] enumerates_set [OF assms(2)] by fastforce
  ultimately show ?thesis using none(3) by (auto simp: claims_def)
qed

lemma addressOwner_Some:
  assumes "enumerates bs (backends r)" and "enumerates ps (pending r)"
    and "addressOwnerLocked bs ps r a = Some k"
  shows "(k, a) \<in> claims (backends r) (pending r) (reserving r)
    \<or> (backendLookupName k, a) \<in> claims (backends r) (pending r) (reserving r)"
proof (cases "find (\<lambda>(name, published). published = a) bs")
  case (Some e)
  then have "backends r k = Some a"
    using assms(3) find_SomeD [OF Some] enumerates_set [OF assms(1)]
    by (cases e) (auto simp: addressOwnerLocked_def)
  then show ?thesis by (auto simp: claims_def)
next
  case None
  show ?thesis
  proof (cases "find (\<lambda>(key, p). p_addr p = a) ps")
    case (Some e)
    then obtain p where "pending r k = Some p" "p_addr p = a"
      using assms(3) None find_SomeD [OF Some] enumerates_set [OF assms(2)]
      by (cases e) (auto simp: addressOwnerLocked_def)
    then show ?thesis by (auto simp: claims_def)
  next
    case None2: None
    with None assms(3) show ?thesis by (auto simp: addressOwnerLocked_def claims_def)
  qed
qed

text \<open>Whether an address is taken does not depend on the orders of the loops.\<close>

lemma addressOwner_taken_iff:
  assumes "enumerates bs (backends r)" and "enumerates ps (pending r)"
  shows "addressOwnerLocked bs ps r a \<noteq> None \<longleftrightarrow>
    (\<exists>k. (k, a) \<in> claims (backends r) (pending r) (reserving r))"
  using addressOwner_None [OF assms] addressOwner_Some [OF assms] by blast

subsection \<open>Reserving\<close>

text \<open>What the reservation loop leaves: the clock and the release log may have moved, and
  a successful reservation is of an address nobody else was promised.\<close>

lemma reserve_loop_effect:
  assumes "reserve_loop env bs ps n key bind la lo r = (res, r')"
    and "\<forall>n. enumerates (bs n) (backends r)" and "\<forall>n. enumerates (ps n) (pending r)"
    and "backendLookupName key = key" and "one_owner (claims (backends r) (pending r) (reserving r))"
  shows "(\<exists>e c l. res = Inl e \<and> r' = r\<lparr>clock := c, released := l\<rparr>) \<or>
    (\<exists>addr rel c l. res = Inr (addr, rel)
       \<and> r' = r\<lparr>clock := c, released := l, reserving := (reserving r)(addr \<mapsto> key)\<rparr>
       \<and> (\<forall>k. (k, addr) \<in> claims (backends r) (pending r) (reserving r) \<longrightarrow> k = key))"
  using assms
proof (induction n arbitrary: la lo r)
  case 0
  have "r = r\<lparr>clock := clock r, released := released r\<rparr>" by simp
  moreover have "res = Inl (Wrapped (Sentinel ErrDynamicAddressExhausted) [la, lo])" "r' = r"
    using 0(1) by simp_all
  ultimately show ?case by blast
next
  case (Suc n)
  obtain al t where al: "allocateBackendAddressLocked env (clock r) (o_ReserveHook (r_opts r)) bind = (al, t)"
    by fastforce
  show ?case
  proof (cases al)
    case (Inl e)
    have "r\<lparr>clock := t\<rparr> = r\<lparr>clock := t, released := released r\<rparr>" by simp
    with Suc.prems(1) al Inl show ?thesis by auto
  next
    case (Inr x)
    obtain addr rel where x: "x = (addr, rel)" by fastforce
    let ?r1 = "r\<lparr>clock := t\<rparr>"
    let ?ok = "r\<lparr>clock := t, released := released r, reserving := (reserving r)(addr \<mapsto> key)\<rparr>"
    have e: "enumerates (bs n) (backends ?r1)" "enumerates (ps n) (pending ?r1)"
      using Suc.prems(2,3) by simp_all
    show ?thesis
    proof (cases "addressOwnerLocked (bs n) (ps n) ?r1 addr")
      case None
      have "\<forall>k. (k, addr) \<notin> claims (backends r) (pending r) (reserving r)"
        using addressOwner_None [OF e None] by simp
      moreover have "res = Inr (addr, rel)" "r' = ?ok"
        using Suc.prems(1) al Inr x None by simp_all
      ultimately show ?thesis by blast
    next
      case (Some owner)
      show ?thesis
      proof (cases "owner = key")
        case True
        have "(key, addr) \<in> claims (backends r) (pending r) (reserving r)"
          using addressOwner_Some [OF e Some] True Suc.prems(4) by auto
        then have "\<forall>k. (k, addr) \<in> claims (backends r) (pending r) (reserving r) \<longrightarrow> k = key"
          using Suc.prems(5) unfolding one_owner_def by blast
        moreover have "res = Inr (addr, rel)" "r' = ?ok"
          using Suc.prems(1) al Inr x Some True by simp_all
        ultimately show ?thesis by blast
      next
        case False
        let ?r2 = "call_release rel ?r1"
        have rec: "reserve_loop env bs ps n key bind addr owner ?r2 = (res, r')"
          using Suc.prems(1) al Inr x Some False by simp
        have upd: "?r2\<lparr>clock := c, released := l\<rparr> = r\<lparr>clock := c, released := l\<rparr>" for c l
          by (simp add: call_release_def split: release.splits)
        have upd': "?r2\<lparr>clock := c, released := l, reserving := m\<rparr>
            = r\<lparr>clock := c, released := l, reserving := m\<rparr>" for c l m
          by (simp add: call_release_def split: release.splits)
        have frame: "backends ?r2 = backends r" "pending ?r2 = pending r" "reserving ?r2 = reserving r"
          by simp_all
        show ?thesis
          using Suc.IH [OF rec] Suc.prems(2-5) unfolding frame upd upd' by blast
      qed
    qed
  qed
qed

lemmas reserve_effect =
  reserve_loop_effect [where n = 8 and la = "[]" and lo = "[]", folded reserveDynamicAddressLocked_def]

lemma claims_reserve:
  assumes "one_owner (claims B P R)" and "\<forall>k. (k, a) \<in> claims B P R \<longrightarrow> k = key"
  shows "one_owner (claims B P (R(a \<mapsto> key)))"
proof -
  have "claims B P (R(a \<mapsto> key)) \<subseteq> insert (key, a) (claims B P R)"
    by (auto simp: claims_def split: if_splits)
  moreover have "one_owner (insert (key, a) (claims B P R))"
    using assms unfolding one_owner_def by blast
  ultimately show ?thesis by (rule one_owner_mono [rotated])
qed

end
