(* ===== verification/RegistrySteps.thy ===== *)
theory RegistrySteps
  imports RegistryInv
begin

text \<open>
  Every step of the concurrent subprocess runner keeps the invariant of
  \<open>RegistryInv\<close>: first the steps that only move one add along and shrink the shared
  state, then the steps that hand something over (admission, reservation, start,
  publication) and the steps of the rest of the runner.
\<close>

section \<open>Steps that only move one add\<close>

lemma set_phase_simps [simp]:
  "adds (set_phase t n ph s) = (adds s)(t \<mapsto> (n, ph))"
  "healthy (set_phase t n ph s) = healthy s" "backends (set_phase t n ph s) = backends s"
  "bin (set_phase t n ph s) = bin s" "dynamic (set_phase t n ph s) = dynamic s"
  "adding (set_phase t n ph s) = adding s" "pending (set_phase t n ph s) = pending s"
  "reserving (set_phase t n ph s) = reserving s" "live (set_phase t n ph s) = live s"
  "files (set_phase t n ph s) = files s" "released (set_phase t n ph s) = released s"
  "stopping (set_phase t n ph s) = stopping s" "watching (set_phase t n ph s) = watching s"
  "run_over (set_phase t n ph s) = run_over s" "next_id (set_phase t n ph s) = next_id s"
  by (simp_all add: set_phase_def)

lemma reserved_unfinished: "reserved_addr ph = Some a \<Longrightarrow> \<not> finished ph"
  by (cases ph) auto

lemma reserved_before: "reserved_addr ph = Some a \<Longrightarrow> before_start ph"
  by (cases ph) auto

lemma reg_inv_move:
  assumes inv: "reg_inv s" and t: "adds s t = Some (n, ph)" "\<not> finished ph"
    and A: "adds s' = (adds s)(t \<mapsto> (n, ph'))"
    and same: "run_over s' = run_over s" "healthy s' = healthy s" "backends s' = backends s"
      "dynamic s' = dynamic s"
    and adding: "adding s' \<subseteq> adding s"
    and pend: "\<And>k p. pending s' k = Some p \<Longrightarrow> pending s k = Some p"
    and res: "\<And>a k. reserving s' a = Some k \<Longrightarrow> reserving s a = Some k"
    and own: "\<And>a k. reserving s a = Some k \<Longrightarrow> k \<noteq> backendLookupName n \<Longrightarrow> reserving s' a = Some k"
    and cl: "cleans_adding ph \<Longrightarrow> cleans_adding ph' \<or> backendLookupName n \<notin> adding s'"
    and un: "\<And>p. unpends p ph \<Longrightarrow> unpends p ph' \<or> pending s' (backendLookupName n) \<noteq> Some p"
    and ru: "\<And>p. runs_proc p ph' \<Longrightarrow> runs_proc p ph"
    and be: "before_start ph' \<Longrightarrow> before_start ph"
    and ra: "\<And>a. reserved_addr ph' = Some a \<Longrightarrow>
        reserved_addr ph = Some a \<and> reserving s' a = reserving s a"
  shows "reg_inv s'"
proof -
  have k: "inv_keys (adds s)" using inv by (simp add: reg_inv_def)
  have "inv_reserved (adds s') (reserving s') (run_over s')"
    unfolding inv_reserved_def
  proof (intro impI allI)
    fix t1 n1 ph1 a
    assume "\<not> run_over s'" and 1: "adds s' t1 = Some (n1, ph1)" "reserved_addr ph1 = Some a"
    then have R: "\<And>t n ph a. adds s t = Some (n, ph) \<Longrightarrow> reserved_addr ph = Some a \<Longrightarrow>
        reserving s a = Some (backendLookupName n)"
      using inv same(1) by (auto simp: reg_inv_def inv_reserved_def)
    show "reserving s' a = Some (backendLookupName n1)"
    proof (cases "t1 = t")
      case True
      with 1 A have "n1 = n" "ph1 = ph'" by simp_all
      then show ?thesis using R [OF t(1)] ra [of a] 1(2) by simp
    next
      case False
      with 1 A have 2: "adds s t1 = Some (n1, ph1)" by simp
      then have "backendLookupName n1 \<noteq> backendLookupName n"
        using False only_add_of_key [OF k t 2] reserved_unfinished [OF 1(2)] by blast
      then show ?thesis using own [OF R [OF 2 1(2)]] by simp
    qed
  qed
  moreover have "one_owner (claims (backends s') (pending s') (reserving s'))"
    by (rule one_owner_mono [of "claims (backends s) (pending s) (reserving s)"])
      (use inv in \<open>simp add: reg_inv_def\<close>, rule claims_mono, simp_all add: same pend res)
  moreover have "inv_over s'"
  proof -
    have "pending s' = Map.empty" if "pending s = Map.empty"
      using pend that by (intro ext) (metis option.exhaust)
    then show ?thesis using inv by (simp add: reg_inv_def inv_over_def same)
  qed
  moreover have "inv_keys (adds s')" unfolding A by (rule keys_move [OF k t])
  moreover have "inv_adding (adds s') (adding s')"
    unfolding A by (rule adding_move [of "adds s" "adding s" t n ph])
      (use inv t(1) adding cl in \<open>auto simp: reg_inv_def\<close>)
  moreover have "inv_pending (adds s') (pending s')"
    unfolding A by (rule pending_move [of "adds s" "pending s" t n ph])
      (use inv t(1) pend un in \<open>auto simp: reg_inv_def\<close>)
  moreover have "inv_free (adds s') (backends s') (dynamic s')"
    unfolding A same by (rule free_move [of "adds s" _ _ t n ph])
      (use inv t(1) be ru in \<open>auto simp: reg_inv_def\<close>)
  moreover have "inv_names (adds s')"
    unfolding A by (rule names_move [of "adds s" t n ph])
      (use inv t(1) ru in \<open>auto simp: reg_inv_def\<close>)
  ultimately show ?thesis using inv by (simp add: reg_inv_def same)
qed

lemma unpend_frame [simp]:
  "adds (unpend k p s) = adds s" "healthy (unpend k p r) = healthy r"
  "backends (unpend k p r) = backends r" "bin (unpend k p r) = bin r" "dynamic (unpend k p r) = dynamic r"
  "adding (unpend k p r) = adding r" "reserving (unpend k p r) = reserving r" "live (unpend k p r) = live r"
  "files (unpend k p r) = files r" "stopping (unpend k p s) = stopping s"
  "watching (unpend k p s) = watching s" "run_over (unpend k p s) = run_over s"
  by (simp_all add: unpend_def)

lemma unpend_pending:
  "pending (unpend k p r) j = Some q \<Longrightarrow> pending r j = Some q"
  "pending (unpend k p r) k \<noteq> Some p"
  by (auto simp: unpend_def split: if_splits)

lemma releaseReservation_frame [simp]:
  "adds (releaseReservation k a rel s) = adds s" "healthy (releaseReservation k a rel r) = healthy r"
  "backends (releaseReservation k a rel r) = backends r" "bin (releaseReservation k a rel r) = bin r"
  "dynamic (releaseReservation k a rel r) = dynamic r" "adding (releaseReservation k a rel r) = adding r"
  "pending (releaseReservation k a rel r) = pending r" "live (releaseReservation k a rel r) = live r"
  "files (releaseReservation k a rel r) = files r" "stopping (releaseReservation k a rel s) = stopping s"
  "watching (releaseReservation k a rel s) = watching s" "run_over (releaseReservation k a rel s) = run_over s"
  by (simp_all add: releaseReservation_def Let_def)

lemma releaseReservation_reserving:
  "reserving (releaseReservation k a rel r) =
     (if reserving r a = Some k then map_remove (reserving r) a else reserving r)"
  by (simp add: releaseReservation_def Let_def)

lemma cleanupAdding_frame [simp]:
  "adds (cleanupAdding k s) = adds s" "healthy (cleanupAdding k r) = healthy r"
  "backends (cleanupAdding k r) = backends r" "bin (cleanupAdding k r) = bin r"
  "dynamic (cleanupAdding k r) = dynamic r" "adding (cleanupAdding k r) = adding r - {k}"
  "pending (cleanupAdding k r) = pending r" "live (cleanupAdding k r) = live r"
  "reserving (cleanupAdding k r) = reserving r" "files (cleanupAdding k r) = files r"
  "stopping (cleanupAdding k s) = stopping s" "watching (cleanupAdding k s) = watching s"
  "run_over (cleanupAdding k s) = run_over s" "next_id (cleanupAdding k r) = next_id r"
  by (simp_all add: cleanupAdding_def)

lemma reg_inv_tail:
  assumes inv: "reg_inv s" and t: "adds s t = Some (n, PTail (u # us) e)"
    and run: "run_tail (backendLookupName n) out u e s = (e1, s1)"
  shows "reg_inv (set_phase t n (if us = [] then PDone (Inl e1) else PTail us e1) s1)"
proof -
  let ?ph' = "if us = [] then PDone (Inl e1) else PTail us e1"
  have shape: "cleans_adding ?ph' \<longleftrightarrow> TCleanupAdding \<in> set us" "\<not> before_start ?ph'"
      "unpends p ?ph' \<longleftrightarrow> TUnpend p \<in> set us \<or> TUnpendCheck p \<in> set us" "\<not> runs_proc p ?ph'"
      "reserved_addr ?ph' = None" for p
    by auto
  show ?thesis
  proof (rule reg_inv_move [OF inv t])
    show "adds (set_phase t n ?ph' s1) = (adds s)(t \<mapsto> (n, ?ph'))"
      using run by (cases u) (auto split: if_splits)
    show "run_over (set_phase t n ?ph' s1) = run_over s" "healthy (set_phase t n ?ph' s1) = healthy s"
      "backends (set_phase t n ?ph' s1) = backends s" "dynamic (set_phase t n ?ph' s1) = dynamic s"
      "adding (set_phase t n ?ph' s1) \<subseteq> adding s"
      using run by (cases u; auto split: if_splits)+
    show "\<And>k p. pending (set_phase t n ?ph' s1) k = Some p \<Longrightarrow> pending s k = Some p"
      using run by (cases u) (auto split: if_splits dest: unpend_pending(1))
    show "\<And>a k. reserving (set_phase t n ?ph' s1) a = Some k \<Longrightarrow> reserving s a = Some k"
      using run by (cases u) (auto simp: releaseReservation_reserving split: if_splits)
    show "\<And>a k. reserving s a = Some k \<Longrightarrow> k \<noteq> backendLookupName n \<Longrightarrow>
        reserving (set_phase t n ?ph' s1) a = Some k"
      using run by (cases u) (auto simp: releaseReservation_reserving split: if_splits)
    show "cleans_adding ?ph' \<or> backendLookupName n \<notin> adding (set_phase t n ?ph' s1)"
      if "cleans_adding (PTail (u # us) e)"
      using run that unfolding shape by (cases u) auto
    show "unpends p ?ph' \<or> pending (set_phase t n ?ph' s1) (backendLookupName n) \<noteq> Some p"
      if "unpends p (PTail (u # us) e)" for p
      using run that unfolding shape by (cases u) (auto simp: unpend_pending(2))
  qed (use shape in auto)
qed

section \<open>Admission\<close>

lemma adding_more:
  assumes "inv_adding A D" and "A t = None" and "D' \<subseteq> insert k D"
    and "k \<in> D' \<Longrightarrow> k \<notin> D \<Longrightarrow> cleans_adding ph \<and> backendLookupName n = k"
  shows "inv_adding (A(t \<mapsto> (n, ph))) D'"
  unfolding inv_adding_def
proof
  fix j assume j: "j \<in> D'"
  show "\<exists>t1 n1 ph1. (A(t \<mapsto> (n, ph))) t1 = Some (n1, ph1) \<and> backendLookupName n1 = j \<and> cleans_adding ph1"
  proof (cases "j \<in> D")
    case True
    then obtain t1 n1 ph1 where "A t1 = Some (n1, ph1)" "backendLookupName n1 = j" "cleans_adding ph1"
      using assms(1) unfolding inv_adding_def by blast
    then show ?thesis using assms(2) by (intro exI [of _ t1]) auto
  next
    case False
    with j assms(3,4) show ?thesis by (intro exI [of _ t]) auto
  qed
qed

lemma pending_more:
  assumes "inv_pending A P" and "A t = None"
  shows "inv_pending (A(t \<mapsto> (n, ph))) P"
  using assms unfolding inv_pending_def by (metis fun_upd_other option.distinct(1))

lemma reg_inv_new:
  assumes inv: "reg_inv s" and t: "adds s t = None"
    and ph: "ph = PAdding \<or> finished ph"
    and ser: "ph = PAdding \<Longrightarrow> \<forall>t' n' ph'. adds s t' = Some (n', ph') \<longrightarrow>
        backendLookupName n' = backendLookupName n \<longrightarrow> finished ph'"
    and free: "ph = PAdding \<Longrightarrow> backendLookupName n \<notin> dom (backends s) \<and> backendLookupName n \<notin> dom (dynamic s)"
    and D: "D = (if ph = PAdding then insert (backendLookupName n) (adding s) else adding s)"
  shows "reg_inv (set_phase t n ph (s\<lparr>adding := D\<rparr>))"
proof -
  have fin: "finished ph \<Longrightarrow> \<not> before_start ph \<and> \<not> runs_proc p ph \<and> reserved_addr ph = None" for p
    by (cases ph) auto
  have padd: "\<not> runs_proc p ph" "reserved_addr ph = None" for p using ph fin by auto
  have "inv_keys ((adds s)(t \<mapsto> (n, ph)))"
  proof (cases "ph = PAdding")
    case True
    with ser show ?thesis using inv t by (intro keys_new) (auto simp: reg_inv_def)
  next
    case False
    then have "finished ph" using ph by simp
    then show ?thesis using inv t by (auto simp: reg_inv_def inv_keys_def split: if_splits)
  qed
  moreover have "inv_adding ((adds s)(t \<mapsto> (n, ph))) D"
    by (rule adding_more [of "adds s" "adding s" t D "backendLookupName n"])
      (use inv t D in \<open>auto simp: reg_inv_def split: if_splits\<close>)
  moreover have "inv_pending ((adds s)(t \<mapsto> (n, ph))) (pending s)"
    using inv t by (intro pending_more) (simp_all add: reg_inv_def)
  moreover have "inv_free ((adds s)(t \<mapsto> (n, ph))) (backends s) (dynamic s)"
    using inv free ph fin padd unfolding inv_free_def reg_inv_def
    by (metis (no_types, lifting) map_upd_Some_unfold prod.inject)
  moreover have "inv_names ((adds s)(t \<mapsto> (n, ph)))"
    using inv padd unfolding inv_names_def reg_inv_def
    by (metis (no_types, lifting) map_upd_Some_unfold prod.inject)
  moreover have "inv_reserved ((adds s)(t \<mapsto> (n, ph))) (reserving s) (run_over s)"
    using inv padd unfolding inv_reserved_def reg_inv_def
    by (metis (no_types, lifting) map_upd_Some_unfold prod.inject option.distinct(1))
  ultimately show ?thesis using inv by (simp add: reg_inv_def inv_over_def)
qed

lemma addBackend_begin_ok:
  "addBackend_begin name s = Inr s1 \<longleftrightarrow>
     healthy s \<and> bin s \<noteq> [] \<and> backendLookupName name \<notin> dom (backends s) \<and>
     backendLookupName name \<notin> dom (dynamic s) \<and> backendLookupName name \<notin> adding s \<and>
     backendLookupName name \<notin> dom (pending s) \<and>
     s1 = s\<lparr>adding := insert (backendLookupName name) (adding s)\<rparr>"
  by (auto simp: addBackend_begin_def Let_def split: if_splits)

section \<open>Reservation, start and publication\<close>

lemma reg_inv_reserved:
  assumes inv: "reg_inv s" and t: "adds s t = Some (n, PAdding)"
    and excl: "\<forall>k. (k, a) \<in> claims (backends s) (pending s) (reserving s) \<longrightarrow> k = backendLookupName n"
  shows "reg_inv (set_phase t n (PReserved a rel)
           (s\<lparr>clock := c, released := l, reserving := (reserving s)(a \<mapsto> backendLookupName n)\<rparr>))"
proof -
  let ?A = "(adds s)(t \<mapsto> (n, PReserved a rel))"
  have nf: "\<not> finished PAdding" by simp
  have "inv_keys ?A" using keys_move [of "adds s" t n PAdding] t inv by (simp add: reg_inv_def)
  moreover have "inv_adding ?A (adding s)"
    by (rule adding_move [of "adds s" "adding s" t n PAdding]) (use inv t in \<open>simp_all add: reg_inv_def\<close>)
  moreover have "inv_pending ?A (pending s)"
    by (rule pending_move [of "adds s" "pending s" t n PAdding]) (use inv t in \<open>simp_all add: reg_inv_def\<close>)
  moreover have "inv_free ?A (backends s) (dynamic s)"
    by (rule free_move [of "adds s" _ _ t n PAdding]) (use inv t in \<open>simp_all add: reg_inv_def\<close>)
  moreover have "inv_names ?A"
    by (rule names_move [of "adds s" t n PAdding]) (use inv t in \<open>simp_all add: reg_inv_def\<close>)
  moreover have "inv_reserved ?A ((reserving s)(a \<mapsto> backendLookupName n)) (run_over s)"
    unfolding inv_reserved_def
  proof (intro impI allI)
    fix t1 n1 ph1 b
    assume over: "\<not> run_over s" and 1: "?A t1 = Some (n1, ph1)" "reserved_addr ph1 = Some b"
    show "((reserving s)(a \<mapsto> backendLookupName n)) b = Some (backendLookupName n1)"
    proof (cases "t1 = t")
      case True
      with 1 show ?thesis by auto
    next
      case False
      with 1 have R: "reserving s b = Some (backendLookupName n1)"
        using inv over by (auto simp: reg_inv_def inv_reserved_def)
      show ?thesis
      proof (cases "b = a")
        case True
        with R have "(backendLookupName n1, a) \<in> claims (backends s) (pending s) (reserving s)"
          by (simp add: claims_def)
        with excl True show ?thesis by auto
      next
        case False
        with R show ?thesis by simp
      qed
    qed
  qed
  moreover have "one_owner (claims (backends s) (pending s) ((reserving s)(a \<mapsto> backendLookupName n)))"
    by (rule claims_reserve [OF _ excl]) (use inv in \<open>simp add: reg_inv_def\<close>)
  ultimately show ?thesis using inv by (simp add: reg_inv_def inv_over_def)
qed

lemma reg_inv_started:
  assumes inv: "reg_inv s" and t: "adds s t = Some (n, PConfigured a rel cfg)"
    and start: "addBackend_start None n a rel cfg s = (Inr p, s1)"
  shows "reg_inv (set_phase t n (PWaiting p) s1)"
proof -
  let ?k = "backendLookupName n" and ?ph = "PConfigured a rel cfg"
  let ?A = "(adds s)(t \<mapsto> (n, PWaiting p))"
  have h: "healthy s" and p: "p_name p = n" "p_addr p = a"
    and s1: "s1 = s\<lparr>adding := adding s - {?k}, next_id := Suc (next_id s),
        live := insert (next_id s) (live s), pending := (pending s)(?k \<mapsto> p)\<rparr>"
    using start by (auto simp: addBackend_start_def cleanupAdding_def Let_def split: if_splits)
  have nf: "\<not> finished ?ph" by simp
  have nover: "\<not> run_over s" using inv h by (auto simp: reg_inv_def inv_over_def)
  have "reserving s a = Some ?k"
    using inv nover t by (auto simp: reg_inv_def inv_reserved_def)
  then have cl: "claims (backends s) ((pending s)(?k \<mapsto> p)) (reserving s)
      \<subseteq> claims (backends s) (pending s) (reserving s)"
    using p by (auto simp: claims_def split: if_splits)
  have "inv_keys ?A" using keys_move [of "adds s" t n ?ph] t inv by (simp add: reg_inv_def)
  moreover have "inv_adding ?A (adding s - {?k})"
    by (rule adding_move [of "adds s" "adding s" t n ?ph]) (use inv t in \<open>auto simp: reg_inv_def\<close>)
  moreover have "inv_pending ?A ((pending s)(?k \<mapsto> p))"
    unfolding inv_pending_def
  proof (intro allI impI)
    fix j q assume j: "((pending s)(?k \<mapsto> p)) j = Some q"
    show "\<exists>t1 n1 ph1. ?A t1 = Some (n1, ph1) \<and> backendLookupName n1 = j \<and> unpends q ph1"
    proof (cases "j = ?k")
      case True
      with j show ?thesis by (intro exI [of _ t]) auto
    next
      case False
      with j have "pending s j = Some q" by simp
      then obtain t1 n1 ph1 where 1: "adds s t1 = Some (n1, ph1)" "backendLookupName n1 = j" "unpends q ph1"
        by (rule inv_pendingE [OF reg_invD(3) [OF inv]])
      with False t have "t1 \<noteq> t" by auto
      with 1 show ?thesis by (intro exI [of _ t1]) auto
    qed
  qed
  moreover have "inv_free ?A (backends s) (dynamic s)"
    by (rule free_move [of "adds s" _ _ t n ?ph]) (use inv t in \<open>simp_all add: reg_inv_def\<close>)
  moreover have "inv_names ?A"
    using inv p unfolding inv_names_def reg_inv_def by (auto split: if_splits)
  moreover have "inv_reserved ?A (reserving s) (run_over s)"
    by (rule reserved_move [of "adds s" _ _ t n ?ph]) (use inv t in \<open>simp_all add: reg_inv_def\<close>)
  moreover have "one_owner (claims (backends s) ((pending s)(?k \<mapsto> p)) (reserving s))"
    by (rule one_owner_mono [OF _ cl]) (use inv in \<open>simp add: reg_inv_def\<close>)
  ultimately show ?thesis using inv nover by (simp add: reg_inv_def inv_over_def s1)
qed

lemma no_alias_of_free_key:
  assumes "inv_alias B" and "backendLookupName m \<notin> dom B"
  shows "m \<notin> dom B"
  using inv_aliasD [OF assms(1), of m] assms(2) by blast

lemma lookup_alias:
  assumes "inv_alias B"
  shows "lookup_address B q = (case B (backendLookupName q) of
    Some a \<Rightarrow> Inr a | None \<Rightarrow> Inl (Sentinel ErrBackendNotFound))"
  using inv_aliasD [OF assms, of q] by (auto simp: lookup_address_def split: option.splits)

lemma publish_alias:
  assumes al: "inv_alias B" and k: "backendLookupName n \<notin> dom B"
  shows "inv_alias (storeBackendAddress B n a)"
  unfolding inv_alias_def
proof (intro allI impI)
  fix m b assume m: "storeBackendAddress B n a m = Some b"
  show "storeBackendAddress B n a (backendLookupName m) = Some b"
  proof (cases "backendLookupName m = backendLookupName n")
    case True
    with no_alias_of_free_key [OF al, of m] k m show ?thesis
      by (auto simp: storeBackendAddress_def split: if_splits)
  next
    case False
    then have "storeBackendAddress B n a m = B m"
      "storeBackendAddress B n a (backendLookupName m) = B (backendLookupName m)"
      by (simp_all add: store_other_key)
    with m al show ?thesis unfolding inv_alias_def by metis
  qed
qed

lemma publish_dynamic:
  assumes al: "inv_alias B" and dy: "inv_dynamic B D" and k: "backendLookupName (p_name p) \<notin> dom B"
  shows "inv_dynamic (storeBackendAddress B (p_name p) (p_addr p)) (D(backendLookupName (p_name p) \<mapsto> p))"
  unfolding inv_dynamic_def
proof (intro allI impI)
  let ?k = "backendLookupName (p_name p)" and ?B = "storeBackendAddress B (p_name p) (p_addr p)"
  fix j q assume j: "(D(?k \<mapsto> p)) j = Some q"
  show "backendLookupName (p_name q) = j \<and> ?B j = Some (p_addr q) \<and> ?B (p_name q) = Some (p_addr q)
      \<and> (\<forall>m \<in> dom ?B. backendLookupName m = j \<longrightarrow> m = p_name q \<or> m = j)"
  proof (cases "j = ?k")
    case True
    with j have "q = p" by simp
    have "m = p_name p \<or> m = ?k" if "m \<in> dom ?B" "backendLookupName m = ?k" for m
      using no_alias_of_free_key [OF al, of m] k that by simp
    with \<open>q = p\<close> True show ?thesis by (simp del: dom_store)
  next
    case False
    with j have q: "D j = Some q" by simp
    note old = inv_dynamicD [OF dy q]
    have jj: "backendLookupName j = j" using old(1) by (metis backendLookupName_idem)
    have "?B m = B m" if "backendLookupName m = j" for m
      using that False by (simp add: store_other_key)
    with old jj show ?thesis by (metis (no_types, lifting) domIff)
  qed
qed

lemma reg_inv_published:
  assumes inv: "reg_inv s" and t: "adds s t = Some (n, POwned p)"
    and pub: "addBackend_publish n p s = (True, s1)"
  shows "reg_inv (set_phase t n (PDone res) s1)"
proof -
  let ?k = "backendLookupName n" and ?a = "p_addr p"
  let ?A = "(adds s)(t \<mapsto> (n, PDone res))" and ?B = "storeBackendAddress (backends s) n (p_addr p)"
  let ?D = "(dynamic s)(?k \<mapsto> p)" and ?P = "map_remove (pending s) ?k"
  have h: "healthy s" and pend: "pending s ?k = Some p"
    using pub by (auto simp: addBackend_publish_def Let_def split: if_splits)
  define R where "R = (if reserving s ?a = Some ?k then map_remove (reserving s) ?a else reserving s)"
  have s1: "s1 = s\<lparr>pending := ?P, reserving := R, dynamic := ?D, backends := ?B\<rparr>"
    using pub h pend by (auto simp: addBackend_publish_def Let_def R_def split: if_splits)
  have nf: "\<not> finished (POwned p)" by simp
  have k: "inv_keys (adds s)" and nover: "\<not> run_over s"
    using inv h by (auto simp: reg_inv_def inv_over_def)
  have nm: "p_name p = n" using inv t by (auto simp: reg_inv_def inv_names_def)
  have fr: "?k \<notin> dom (backends s)" "?k \<notin> dom (dynamic s)"
    using inv t by (auto simp: reg_inv_def inv_free_def)
  have al: "inv_alias (backends s)" using inv by (simp add: reg_inv_def)
  have "inv_keys ?A" by (rule keys_move [OF k t nf])
  moreover have "inv_adding ?A (adding s)"
    by (rule adding_move [of "adds s" "adding s" t n "POwned p"]) (use inv t in \<open>simp_all add: reg_inv_def\<close>)
  moreover have "inv_pending ?A ?P"
    by (rule pending_move [of "adds s" "pending s" t n "POwned p"])
      (use inv t in \<open>auto simp: reg_inv_def split: if_splits\<close>)
  moreover have "inv_free ?A ?B ?D"
    unfolding inv_free_def
  proof (intro allI impI)
    fix t1 n1 ph1
    assume 1: "?A t1 = Some (n1, ph1)" "before_start ph1 \<or> (\<exists>p. runs_proc p ph1)"
    then have 2: "t1 \<noteq> t" "adds s t1 = Some (n1, ph1)" by (auto split: if_splits)
    have "\<not> finished ph1" using 1(2) by (cases ph1) auto
    then have ne: "backendLookupName n1 \<noteq> ?k"
      using only_add_of_key [OF k t nf 2(2)] 2(1) by blast
    then have "backendLookupName n1 \<noteq> n" by (metis backendLookupName_idem)
    with ne show "backendLookupName n1 \<notin> dom ?B \<and> backendLookupName n1 \<notin> dom ?D"
      using inv_freeD [OF reg_invD(4) [OF inv] 2(2) 1(2)] by simp
  qed
  moreover have "inv_alias ?B" by (rule publish_alias [OF al fr(1)])
  moreover have "inv_dynamic ?B ?D"
    using publish_dynamic [OF al reg_invD(6) [OF inv], of p] fr(1) nm by simp
  moreover have "inv_names ?A"
    by (rule names_move [of "adds s" t n "POwned p"]) (use inv t in \<open>simp_all add: reg_inv_def\<close>)
  moreover have "inv_reserved ?A R (run_over s)"
    unfolding inv_reserved_def
  proof (intro impI allI)
    fix t1 n1 ph1 b
    assume 1: "?A t1 = Some (n1, ph1)" "reserved_addr ph1 = Some b"
    then have 2: "t1 \<noteq> t" "adds s t1 = Some (n1, ph1)" by (auto split: if_splits)
    then have "reserving s b = Some (backendLookupName n1)"
      using inv nover 1(2) by (auto simp: reg_inv_def inv_reserved_def)
    moreover have "backendLookupName n1 \<noteq> ?k"
      using only_add_of_key [OF k t nf 2(2)] 2(1) reserved_unfinished [OF 1(2)] by blast
    ultimately show "R b = Some (backendLookupName n1)" by (auto simp: R_def)
  qed
  moreover have "one_owner (claims ?B ?P R)"
  proof (rule one_owner_mono)
    show "one_owner (claims (backends s) (pending s) (reserving s))"
      using inv by (simp add: reg_inv_def)
    have "(?k, ?a) \<in> claims (backends s) (pending s) (reserving s)"
      using pend by (auto simp: claims_def)
    then show "claims ?B ?P R \<subseteq> claims (backends s) (pending s) (reserving s)"
      by (auto simp: claims_def storeBackendAddress_def R_def split: if_splits)
  qed
  ultimately show ?thesis using inv nover by (simp add: reg_inv_def inv_over_def s1)
qed

section \<open>Unpublishing\<close>

lemma unpublish_frame [simp]:
  "adds (unpublish k p s) = adds s" "healthy (unpublish k p r) = healthy r" "bin (unpublish k p r) = bin r"
  "adding (unpublish k p r) = adding r" "pending (unpublish k p r) = pending r"
  "reserving (unpublish k p r) = reserving r" "live (unpublish k p r) = live r"
  "files (unpublish k p r) = files r" "stopping (unpublish k p s) = stopping s"
  "watching (unpublish k p s) = watching s" "run_over (unpublish k p s) = run_over s"
  "dynamic (unpublish k p r) = map_remove (dynamic r) k"
  "backends (unpublish k p r) =
     map_remove (map_remove (backends r) (p_name p)) (backendLookupName (p_name p))"
  by (simp_all add: unpublish_def)

lemma unpublish_alias_dynamic:
  assumes al: "inv_alias B" and dy: "inv_dynamic B D" and k: "D k = Some p"
  defines "B' \<equiv> map_remove (map_remove B (p_name p)) (backendLookupName (p_name p))"
  shows "inv_alias B'" and "inv_dynamic B' (map_remove D k)"
proof -
  note kp = inv_dynamicD [OF dy k]
  have gone: "B' n = None" if "backendLookupName n = k" for n
  proof (cases "B n")
    case None
    then show ?thesis by (simp add: B'_def)
  next
    case (Some a)
    with that kp(4) [of n] have "n = p_name p \<or> n = k" by blast
    with kp(1) show ?thesis by (auto simp: B'_def)
  qed
  have keep: "B' n = B n" if "backendLookupName n \<noteq> k" for n
    using that kp(1) unfolding B'_def by auto
  have kk: "backendLookupName k = k" using kp(1) by (metis backendLookupName_idem)
  show "inv_alias B'"
    unfolding inv_alias_def
  proof (intro allI impI)
    fix n a assume n: "B' n = Some a"
    with gone have ne: "backendLookupName n \<noteq> k" by force
    then have "B n = Some a" using n keep by simp
    then have "B (backendLookupName n) = Some a" by (rule inv_aliasD [OF al])
    then show "B' (backendLookupName n) = Some a"
      using ne keep [of "backendLookupName n"] by simp
  qed
  show "inv_dynamic B' (map_remove D k)"
    unfolding inv_dynamic_def
  proof (intro allI impI)
    fix j q assume "map_remove D k j = Some q"
    then have j: "j \<noteq> k" "D j = Some q" by (auto split: if_splits)
    note jq = inv_dynamicD [OF dy j(2)]
    have "B' m = B m" if "backendLookupName m = j" for m using that j(1) by (intro keep) simp
    with jq(1) have "B' (p_name q) = B (p_name q)" "B' j = B j"
      by (simp_all, metis backendLookupName_idem)
    moreover have "\<forall>n \<in> dom B'. n \<in> dom B" unfolding B'_def by auto
    ultimately show "backendLookupName (p_name q) = j \<and> B' j = Some (p_addr q) \<and> B' (p_name q) = Some (p_addr q)
        \<and> (\<forall>n \<in> dom B'. backendLookupName n = j \<longrightarrow> n = p_name q \<or> n = j)"
      using jq by simp
  qed
qed

lemma reg_inv_unpublish:
  assumes inv: "reg_inv s" and k: "dynamic s k = Some p"
  shows "reg_inv (unpublish k p s)"
proof -
  note ad = unpublish_alias_dynamic [OF reg_invD(5,6) [OF inv] k]
  have "inv_free (adds s) (backends (unpublish k p s)) (dynamic (unpublish k p s))"
    by (rule free_mono [OF reg_invD(4) [OF inv]]) auto
  moreover have "one_owner (claims (backends (unpublish k p s)) (pending s) (reserving s))"
    by (rule one_owner_mono [OF reg_invD(9) [OF inv]], rule claims_mono) (auto split: if_splits)
  moreover have "inv_over (unpublish k p s)"
    using reg_invD(10) [OF inv] by (auto simp: inv_over_def)
  ultimately show ?thesis
    unfolding reg_inv_def using ad reg_invD [OF inv] by simp
qed

text \<open>Steps that leave the components of the invariant alone.\<close>

lemma reg_inv_cong:
  assumes "reg_inv s" and "adds s' = adds s" "adding s' = adding s" "pending s' = pending s"
    "backends s' = backends s" "dynamic s' = dynamic s" "reserving s' = reserving s"
    "run_over s' = run_over s" "run_over s \<Longrightarrow> healthy s' = healthy s"
  shows "reg_inv s'"
  using assms by (auto simp: reg_inv_def inv_over_def)

lemma reg_inv_unpend:
  assumes "reg_inv s"
  shows "reg_inv (unpend k p s)"
proof -
  have "inv_pending (adds s) (pending (unpend k p s))"
    by (rule pending_mono [OF reg_invD(3) [OF assms]]) (rule unpend_pending(1))
  moreover have "one_owner (claims (backends s) (pending (unpend k p s)) (reserving s))"
    by (rule one_owner_mono [OF reg_invD(9) [OF assms]], rule claims_mono)
      (auto dest: unpend_pending(1))
  moreover have "inv_over (unpend k p s)"
    using reg_invD(10) [OF assms] by (auto simp: inv_over_def unpend_def)
  ultimately show ?thesis using reg_invD [OF assms] by (simp add: reg_inv_def)
qed

lemma reg_inv_exited:
  assumes "reg_inv s"
  shows "reg_inv (dynamicBackendExited k p s)"
proof -
  have "reg_inv (if dynamic s k = Some p then unpublish k p s else s)"
    using assms by (auto intro: reg_inv_unpublish)
  then have "reg_inv (unpend k p (if dynamic s k = Some p then unpublish k p s else s))"
    by (rule reg_inv_unpend)
  then show ?thesis
    by (rule reg_inv_cong) (simp_all add: dynamicBackendExited_def Let_def)
qed

section \<open>Stopping everything\<close>

lemma foldl_unpublish:
  "reg_inv s \<Longrightarrow> distinct (map fst ds) \<Longrightarrow> (\<forall>(k, p) \<in> set ds. dynamic s k = Some p) \<Longrightarrow>
   reg_inv (foldl (\<lambda>r (k, p). unpublish k p r) s ds)
   \<and> (\<forall>k. dynamic (foldl (\<lambda>r (k, p). unpublish k p r) s ds) k
        = (if k \<in> fst ` set ds then None else dynamic s k))"
proof (induction ds arbitrary: s)
  case Nil
  then show ?case by simp
next
  case (Cons d ds)
  obtain k p where d: "d = (k, p)" by fastforce
  have "reg_inv (unpublish k p s)" using Cons.prems d by (auto intro: reg_inv_unpublish)
  moreover have "\<forall>(j, q) \<in> set ds. dynamic (unpublish k p s) j = Some q"
    using Cons.prems d by (force simp: image_iff)
  ultimately show ?case using Cons.IH [of "unpublish k p s"] Cons.prems(2) d by auto
qed

lemma foldl_unpublish_frame:
  "adds (foldl (\<lambda>r (k, p). unpublish k p r) s ds) = adds s"
  "healthy (foldl (\<lambda>r (k, p). unpublish k p r) s ds) = healthy s"
  "bin (foldl (\<lambda>r (k, p). unpublish k p r) s ds) = bin s"
  "live (foldl (\<lambda>r (k, p). unpublish k p r) s ds) = live s"
  "pending (foldl (\<lambda>r (k, p). unpublish k p r) s ds) = pending s"
  "stopping (foldl (\<lambda>r (k, p). unpublish k p r) s ds) = stopping s"
  "watching (foldl (\<lambda>r (k, p). unpublish k p r) s ds) = watching s"
  "files (foldl (\<lambda>r (k, p). unpublish k p r) s ds) = files s"
  by (induction ds arbitrary: s) auto

lemma foldl_map_remove:
  "foldl (\<lambda>m (k, p). map_remove m k) m ps k = (if k \<in> fst ` set ps then None else m k)"
  by (induction ps arbitrary: m) auto

lemma enumerates_keys: "enumerates es m \<Longrightarrow> fst ` set es = dom m"
  by (metis dom_map_of_conv_image_fst enumerates_def)

lemma reg_inv_stop_all:
  assumes inv: "reg_inv s" and ds: "enumerates ds (dynamic s)" and ps: "enumerates ps (pending s)"
    and down: "\<not> healthy s" and c: "stopDynamicBackends_collect ds ps s = (procs, s1)"
  shows "reg_inv (s1\<lparr>stopping := S, run_over := True\<rparr>)" and "dynamic s1 = Map.empty"
    and "pending s1 = Map.empty" and "adding s1 = {}" and "reserving s1 = Map.empty"
proof -
  define u where "u = foldl (\<lambda>r (k, p). unpublish k p r) s ds"
  have s1: "s1 = u\<lparr>pending := foldl (\<lambda>m (key, p). map_remove m key) (pending s) ps,
      adding := {}, reserving := Map.empty\<rparr>"
    using c by (simp add: stopDynamicBackends_collect_def u_def)
  have "\<forall>(k, p) \<in> set ds. dynamic s k = Some p" using enumerates_set [OF ds] by auto
  then have u: "reg_inv u" "\<forall>k. dynamic u k = (if k \<in> fst ` set ds then None else dynamic s k)"
    using foldl_unpublish [OF inv] ds unfolding u_def by (auto simp: enumerates_def)
  show dyn: "dynamic s1 = Map.empty"
    using u(2) enumerates_keys [OF ds] by (auto simp: s1 domIff)
  show pend: "pending s1 = Map.empty"
    using enumerates_keys [OF ps] by (auto simp: s1 foldl_map_remove domIff)
  show "adding s1 = {}" "reserving s1 = Map.empty" by (simp_all add: s1)
  have "inv_pending (adds u) (pending s1)" by (simp add: pend inv_pending_def)
  moreover have "one_owner (claims (backends u) (pending s1) Map.empty)"
    by (rule one_owner_mono [OF reg_invD(9) [OF u(1)]], rule claims_mono) (simp_all add: pend)
  moreover have "inv_adding (adds u) {}" by (simp add: inv_adding_def)
  moreover have "inv_reserved (adds u) Map.empty True" by (simp add: inv_reserved_def)
  moreover have "backends s1 = backends u" "adds s1 = adds u" "healthy s1 = healthy u"
      "dynamic s1 = dynamic u" "adding s1 = {}" "reserving s1 = Map.empty" by (simp_all add: s1)
  moreover have "\<not> healthy u" using down by (simp add: u_def foldl_unpublish_frame)
  ultimately show "reg_inv (s1\<lparr>stopping := S, run_over := True\<rparr>)"
    using reg_invD [OF u(1)] dyn pend by (simp add: reg_inv_def inv_over_def)
qed

end
