(* ===== verification/RegistryTheorems.thy ===== *)
theory RegistryTheorems
  imports RegistrySteps
begin

text \<open>
  The invariant of the concurrent subprocess runner holds in every reachable state, every
  running process has somebody who will stop it, and what follows for the addresses the
  runner publishes.
\<close>

section \<open>One step\<close>

lemma add_step_phases:
  assumes "add_step env l t n ph s = Some s'"
  obtains (reserve) t' bs ps where "l = LReserve t' bs ps" "ph = PAdding"
  | (config) t' res a rel where "l = LConfig t' res" "ph = PReserved a rel"
  | (start) t' err a rel cfg where "l = LStart t' err" "ph = PConfigured a rel cfg"
  | (wait) t' err p where "l = LWait t' err" "ph = PWaiting p"
  | (owner) t' v p where "l = LOwner t' v" "ph = PReady p"
  | (publish) t' p where "l = LPublish t'" "ph = POwned p"
  | (tail) t' out u us e where "l = LTail t' out" "ph = PTail (u # us) e"
  using assms
proof (cases ph)
  case PAdding
  with assms reserve show ?thesis by (cases l) (auto simp: add_step_def)
next
  case (PReserved a rel)
  with assms config show ?thesis by (cases l) (auto simp: add_step_def)
next
  case (PConfigured a rel cfg)
  with assms start show ?thesis by (cases l) (auto simp: add_step_def)
next
  case (PWaiting p)
  with assms wait show ?thesis by (cases l) (auto simp: add_step_def)
next
  case (PReady p)
  with assms owner show ?thesis by (cases l) (auto simp: add_step_def)
next
  case (POwned p)
  with assms publish show ?thesis by (cases l) (auto simp: add_step_def)
next
  case (PTail us e)
  with assms tail show ?thesis by (cases l; cases us) (auto simp: add_step_def)
next
  case (PDone r)
  with assms show ?thesis by (cases l) (auto simp: add_step_def)
qed

text \<open>A thread that has a process goes on with the same process, or to its clean-up.\<close>

lemma reg_inv_goto_files:
  assumes inv: "reg_inv s" and t: "adds s t = Some (n, ph)" "\<not> finished ph"
    and cl: "cleans_adding ph \<Longrightarrow> cleans_adding ph'" and un: "\<And>p. unpends p ph \<Longrightarrow> unpends p ph'"
    and ru: "\<And>p. runs_proc p ph' \<Longrightarrow> runs_proc p ph" and be: "before_start ph' \<Longrightarrow> before_start ph"
    and ra: "\<And>a. reserved_addr ph' = Some a \<Longrightarrow> reserved_addr ph = Some a"
  shows "reg_inv (set_phase t n ph' (s\<lparr>files := F\<rparr>))"
  by (rule reg_inv_move [where ph' = ph', OF inv t]) (use cl un ru be ra in auto)

lemma reg_inv_goto:
  assumes inv: "reg_inv s" and t: "adds s t = Some (n, ph)" "\<not> finished ph"
    and cl: "cleans_adding ph \<Longrightarrow> cleans_adding ph'" and un: "\<And>p. unpends p ph \<Longrightarrow> unpends p ph'"
    and ru: "\<And>p. runs_proc p ph' \<Longrightarrow> runs_proc p ph" and be: "before_start ph' \<Longrightarrow> before_start ph"
    and ra: "\<And>a. reserved_addr ph' = Some a \<Longrightarrow> reserved_addr ph = Some a"
  shows "reg_inv (set_phase t n ph' s)"
  using reg_inv_goto_files [OF inv t cl un ru be ra, of "files s"] by simp

lemma reg_inv_reserve_step:
  assumes inv: "reg_inv s" and t: "adds s t = Some (n, PAdding)"
    and en: "\<forall>n. enumerates (bs n) (backends s)" "\<forall>n. enumerates (ps n) (pending s)"
    and res: "reserveDynamicAddressLocked env bs ps (backendLookupName n) bind s = (res, s1)"
  shows "case res of Inl e \<Rightarrow> reg_inv (set_phase t n (PTail [TCleanupAdding] (Wrapped e [n])) s1)
    | Inr (addr, rel) \<Rightarrow> reg_inv (set_phase t n (PReserved addr rel) s1)"
proof -
  have lk: "backendLookupName (backendLookupName n) = backendLookupName n" by simp
  from reserve_effect [OF res en lk reg_invD(9) [OF inv]] show ?thesis
  proof (elim disjE exE conjE)
    fix e c l assume r: "res = Inl e" "s1 = s\<lparr>clock := c, released := l\<rparr>"
    have "reg_inv (set_phase t n (PTail [TCleanupAdding] (Wrapped e [n])) s1)"
      by (rule reg_inv_move [OF inv t]) (auto simp: r)
    with r show ?thesis by simp
  next
    fix addr rel c l
    assume r: "res = Inr (addr, rel)"
      "s1 = s\<lparr>clock := c, released := l, reserving := (reserving s)(addr \<mapsto> backendLookupName n)\<rparr>"
      and excl: "\<forall>k. (k, addr) \<in> claims (backends s) (pending s) (reserving s) \<longrightarrow> k = backendLookupName n"
    have "reg_inv (set_phase t n (PReserved addr rel) s1)"
      unfolding r(2) by (rule reg_inv_reserved [OF inv t excl])
    with r show ?thesis by simp
  qed
qed

lemma reg_inv_start_step:
  assumes inv: "reg_inv s" and t: "adds s t = Some (n, PConfigured a rel cfg)"
    and st: "addBackend_start err n a rel cfg s = (res, s1)"
  shows "reg_inv (set_phase t n (case res of Inl (True, e) \<Rightarrow> PTail [TReleaseReservation a rel, TRemoveFile cfg] e
    | Inl (False, e) \<Rightarrow> PTail [TReleaseReservation a rel, TCleanupAdding, TRemoveFile cfg] e
    | Inr p \<Rightarrow> PWaiting p) s1)"
proof (cases res)
  case (Inr p)
  then have "err = None" using st
    by (auto simp: addBackend_start_def Let_def split: if_splits option.splits)
  with st Inr reg_inv_started [OF inv t] show ?thesis by simp
next
  case (Inl x)
  then have s1: "s1 = cleanupAdding (backendLookupName n) s"
    using st by (auto simp: addBackend_start_def Let_def split: if_splits option.splits)
  obtain b e where x: "x = (b, e)" by fastforce
  have nf: "\<not> finished (PConfigured a rel cfg)" by simp
  have "reg_inv (set_phase t n (PTail us e) s1)" if "us \<noteq> []" for us
    by (rule reg_inv_move [OF inv t nf]) (auto simp: s1)
  then show ?thesis using Inl x by (cases b) simp_all
qed

lemma reg_inv_publish_step:
  assumes inv: "reg_inv s" and t: "adds s t = Some (n, POwned p)"
    and pub: "addBackend_publish n p s = (b, s1)"
  shows "reg_inv (set_phase t n
    (if b then PDone (Inr (p_addr p))
     else PTail [TStop p, TReleaseReservation (p_addr p) (p_release p)] (Sentinel ErrNotStarted)) s1)"
proof (cases b)
  case True
  with reg_inv_published [OF inv t] pub show ?thesis by simp
next
  case False
  then have s1: "s1 = unpend (backendLookupName n) p s \<or>
      s1 = s \<and> pending s (backendLookupName n) \<noteq> Some p"
    using pub by (auto simp: addBackend_publish_def Let_def split: if_splits)
  have nf: "\<not> finished (POwned p)" by simp
  have "reg_inv (set_phase t n (PTail [TStop p, TReleaseReservation (p_addr p) (p_release p)] e) s1)" for e
    by (rule reg_inv_move [OF inv t nf])
      (use s1 in \<open>auto simp: unpend_pending(2) dest: unpend_pending(1)\<close>)
  with False show ?thesis by simp
qed

lemma reg_inv_add_step:
  assumes inv: "reg_inv s" and t: "adds s t = Some (n, ph)" and st: "add_step env l t n ph s = Some s'"
  shows "reg_inv s'"
  using st
proof (cases rule: add_step_phases)
  case (reserve t' bs ps)
  obtain res s1 where r: "reserveDynamicAddressLocked env bs ps (backendLookupName n) (o_Bind (r_opts s)) s = (res, s1)"
    by fastforce
  from reserve st have en: "\<forall>n. enumerates (bs n) (backends s)" "\<forall>n. enumerates (ps n) (pending s)"
    by (auto simp: add_step_def split: if_splits)
  from reg_inv_reserve_step [OF inv _ en r] t st reserve en r show ?thesis
    by (auto simp: add_step_def Let_def split: sum.splits prod.splits)
next
  case (config t' res a rel)
  show ?thesis
  proof (cases res)
    case (Inl e)
    with config st have "s' = set_phase t n (PTail [TReleaseReservation a rel, TCleanupAdding] e) s"
      by (simp add: add_step_def)
    then show ?thesis using config t by (auto intro!: reg_inv_goto [OF inv])
  next
    case (Inr cfg)
    with config st have "s' = set_phase t n (PConfigured a rel cfg) (s\<lparr>files := insert cfg (files s)\<rparr>)"
      by (auto simp: add_step_def split: if_splits)
    then show ?thesis using config t by (auto intro!: reg_inv_goto_files [OF inv])
  qed
next
  case (start t' err a rel cfg)
  obtain res s1 where r: "addBackend_start err n a rel cfg s = (res, s1)" by fastforce
  from reg_inv_start_step [OF inv _ r] t st start r show ?thesis
    by (auto simp: add_step_def split: sum.splits prod.splits bool.splits)
next
  case (wait t' err p)
  then obtain ph' where "s' = set_phase t n ph' s" "\<not> before_start ph'" "reserved_addr ph' = None"
      "\<And>q. unpends q ph' \<longleftrightarrow> p = q" "\<And>q. runs_proc q ph' \<Longrightarrow> p = q"
    using st by (cases err) (fastforce simp: add_step_def)+
  then show ?thesis using wait t by (auto intro!: reg_inv_goto [OF inv])
next
  case (owner t' v p)
  then obtain ph' where "s' = set_phase t n ph' s" "\<not> before_start ph'" "reserved_addr ph' = None"
      "\<And>q. unpends q ph' \<longleftrightarrow> p = q" "\<And>q. runs_proc q ph' \<Longrightarrow> p = q"
    using st by (cases "dynamicAddressOwned (Some p) v") (fastforce simp: add_step_def)+
  then show ?thesis using owner t by (auto intro!: reg_inv_goto [OF inv])
next
  case (publish t' p)
  obtain b s1 where r: "addBackend_publish n p s = (b, s1)" by fastforce
  have tp: "adds s t = Some (n, POwned p)" using t publish by simp
  note g = reg_inv_publish_step [OF inv tp r]
  show ?thesis
  proof (cases b)
    case True
    then have "s' = (set_phase t n (PDone (Inr (p_addr p))) s1)\<lparr>watching :=
        insert (backendLookupName n, p) (watching s1)\<rparr>"
      using st publish r by (simp add: add_step_def)
    moreover have "reg_inv (set_phase t n (PDone (Inr (p_addr p))) s1)"
      using g True by simp
    ultimately show ?thesis by (auto elim!: reg_inv_cong)
  next
    case False
    with g st publish r show ?thesis by (auto simp add: add_step_def)
  qed
next
  case (tail t' out u us e)
  obtain e1 s1 where r: "run_tail (backendLookupName n) out u e s = (e1, s1)" by fastforce
  have tt: "adds s t = Some (n, PTail (u # us) e)" using t tail by simp
  from reg_inv_tail [OF inv tt r] st tail r show ?thesis
    by (auto simp: add_step_def split: if_splits)
qed

theorem reg_inv_step:
  assumes inv: "reg_inv s" and ser: "serial l s" and st: "sub_step env l s = Some s'"
  shows "reg_inv s'"
proof (cases l)
  case (LBegin t name)
  from st LBegin have t: "adds s t = None"
    by (cases "adds s t") (auto simp: sub_step_def split: if_splits)
  show ?thesis
  proof (cases "addBackend_begin name s")
    case (Inl e)
    with st LBegin have "s' = set_phase t name (PDone (Inl e)) s"
      by (auto simp: sub_step_def split: if_splits)
    with reg_inv_new [OF inv t, of "PDone (Inl e)" name "adding s"] show ?thesis by simp
  next
    case (Inr s1)
    note b = Inr [unfolded addBackend_begin_ok]
    from Inr st LBegin have "s' = set_phase t name PAdding s1"
      by (auto simp: sub_step_def split: if_splits)
    then show ?thesis using b ser LBegin
      by (auto simp: serial_def intro!: reg_inv_new [OF inv t])
  qed
next
  case (LRemove name)
  show ?thesis
  proof (cases "dynamic s (backendLookupName name)")
    case None
    with st LRemove have "s' = s"
      by (auto simp: sub_step_def removeBackend_begin_def Let_def split: sum.splits)
    with inv show ?thesis by simp
  next
    case (Some p)
    with st LRemove have "s' = (unpublish (backendLookupName name) p s)
        \<lparr>stopping := insert p (stopping s)\<rparr>"
      by (auto simp: sub_step_def removeBackend_begin_def Let_def)
    with reg_inv_unpublish [OF inv Some] show ?thesis by (auto intro: reg_inv_cong)
  qed
next
  case (LStopped p out)
  with st have "s' = (snd (stopSubprocessBackend out p s))\<lparr>stopping := stopping s - {p}\<rparr>"
    by (auto simp: sub_step_def split: if_splits)
  then show ?thesis by (auto intro: reg_inv_cong [OF inv])
next
  case (LExit i)
  with st have "s' = s\<lparr>live := live s - {i}\<rparr>" by (auto simp: sub_step_def)
  then show ?thesis by (auto intro: reg_inv_cong [OF inv])
next
  case (LWatch key p)
  with st have "s' = (dynamicBackendExited key p s)\<lparr>watching := watching s - {(key, p)}\<rparr>"
    by (auto simp: sub_step_def split: if_splits)
  then show ?thesis using reg_inv_exited [OF inv, of key p] by (auto elim!: reg_inv_cong)
next
  case (LHealthy b)
  with st have "s' = s\<lparr>healthy := b\<rparr>" "\<not> run_over s" by (auto simp: sub_step_def split: if_splits)
  then show ?thesis by (auto intro: reg_inv_cong [OF inv])
next
  case (LStopAll ds ps)
  obtain procs s1 where c: "stopDynamicBackends_collect ds ps s = (procs, s1)" by fastforce
  with st LStopAll have "\<not> healthy s" "enumerates ds (dynamic s)" "enumerates ps (pending s)"
      "s' = s1\<lparr>stopping := stopping s1 \<union> set procs, run_over := True\<rparr>"
    by (auto simp: sub_step_def split: if_splits)
  with reg_inv_stop_all(1) [OF inv _ _ _ c] show ?thesis by simp
qed (use st in \<open>auto simp: sub_step_def split: option.splits intro: reg_inv_add_step [OF inv]\<close>)

section \<open>Every reachable state\<close>

text \<open>What a run starts from: the static addresses, two names for each, no two backends
  with the same address.\<close>

definition static_ok :: "(string \<rightharpoonup> string) \<Rightarrow> bool" where
  "static_ok B \<longleftrightarrow> inv_alias B \<and>
     (\<forall>m n a. B m = Some a \<longrightarrow> B n = Some a \<longrightarrow> backendLookupName m = backendLookupName n)"

lemma reg_inv_fresh: "static_ok B \<Longrightarrow> reg_inv (fresh_run b opts B)"
  by (auto simp: reg_inv_def fresh_run_def static_ok_def inv_keys_def inv_adding_def inv_pending_def
      inv_free_def inv_dynamic_def inv_names_def inv_reserved_def one_owner_def claims_def inv_over_def)

lemma reg_inv_reach:
  assumes "reach env ok s0 s" and "reg_inv s0" and "\<And>l s. ok l s \<Longrightarrow> serial l s"
  shows "reg_inv s"
  using assms by (induction rule: reach.induct) (auto intro: reg_inv_step)

section \<open>Who stops a running process\<close>

lemma stops_not_done: "stops p ph \<Longrightarrow> \<not> finished ph"
  by (cases ph) auto

lemma unpends_not_done: "unpends p ph \<Longrightarrow> \<not> finished ph"
  by (cases ph) auto

lemma cleans_not_done: "cleans_adding ph \<Longrightarrow> \<not> finished ph"
  by (cases ph) auto

text \<open>A step keeps \<open>inv_live\<close> when every process it leaves running keeps an owner.\<close>

lemma inv_live_move:
  assumes "inv_live s" and "adds s t = Some (n, ph)" and "adds s' = (adds s)(t \<mapsto> (n, ph'))"
    and "dynamic s' = dynamic s" and "stopping s \<subseteq> stopping s'" and "live s' \<subseteq> live s"
    and "\<And>p. stops p ph \<Longrightarrow> p_id p \<in> live s' \<Longrightarrow> stops p ph' \<or> p \<in> stopping s'"
  shows "inv_live s'"
  unfolding inv_live_def
proof
  fix i assume i: "i \<in> live s'"
  then obtain p where p: "p_id p = i"
    "(\<exists>k. dynamic s k = Some p) \<or> p \<in> stopping s \<or> (\<exists>t n ph. adds s t = Some (n, ph) \<and> stops p ph)"
    using assms(1,6) unfolding inv_live_def by blast
  have "(\<exists>t1 n1 ph1. adds s' t1 = Some (n1, ph1) \<and> stops p ph1) \<or> p \<in> stopping s'"
    if 1: "adds s t1 = Some (n1, ph1)" "stops p ph1" for t1 n1 ph1
  proof (cases "t1 = t")
    case True
    then have "stops p ph" using 1 assms(2) by simp
    with assms(7) p(1) i have "stops p ph' \<or> p \<in> stopping s'" by blast
    then show ?thesis using assms(3) by (metis fun_upd_same)
  next
    case False
    with 1 assms(3) show ?thesis by (metis fun_upd_other)
  qed
  with p assms(4,5) show "\<exists>p. p_id p = i \<and> ((\<exists>k. dynamic s' k = Some p) \<or> p \<in> stopping s'
      \<or> (\<exists>t n ph. adds s' t = Some (n, ph) \<and> stops p ph))" by (metis subsetD)
qed

lemma inv_live_mono:
  assumes "inv_live s" and "live s' \<subseteq> live s"
    and "\<And>k p. dynamic s k = Some p \<Longrightarrow> p_id p \<in> live s' \<Longrightarrow> dynamic s' k = Some p \<or> p \<in> stopping s'"
    and "\<And>p. p \<in> stopping s \<Longrightarrow> p_id p \<in> live s' \<Longrightarrow> p \<in> stopping s'"
    and "\<And>t n ph. adds s t = Some (n, ph) \<Longrightarrow> \<not> finished ph \<Longrightarrow> adds s' t = Some (n, ph)"
  shows "inv_live s'"
  unfolding inv_live_def
proof
  fix i assume i: "i \<in> live s'"
  then obtain p where p: "p_id p = i"
    "(\<exists>k. dynamic s k = Some p) \<or> p \<in> stopping s \<or> (\<exists>t n ph. adds s t = Some (n, ph) \<and> stops p ph)"
    using assms(1,2) unfolding inv_live_def by blast
  with i assms(3-5) stops_not_done show "\<exists>p. p_id p = i \<and> ((\<exists>k. dynamic s' k = Some p)
      \<or> p \<in> stopping s' \<or> (\<exists>t n ph. adds s' t = Some (n, ph) \<and> stops p ph))" by metis
qed

lemma reserve_frame:
  assumes "reg_inv s" and "\<forall>n. enumerates (bs n) (backends s)" and "\<forall>n. enumerates (ps n) (pending s)"
    and "reserveDynamicAddressLocked env bs ps (backendLookupName n) bind s = (res, s1)"
  shows "adds s1 = adds s \<and> dynamic s1 = dynamic s \<and> stopping s1 = stopping s \<and> live s1 = live s"
  using reserve_effect [OF assms(4,2,3) _ reg_invD(9) [OF assms(1)]] by auto

lemma inv_live_start:
  assumes live: "inv_live s" and t: "adds s t = Some (n, PConfigured a rel cfg)"
    and st: "addBackend_start err n a rel cfg s = (Inr p, s1)"
  shows "inv_live (set_phase t n (PWaiting p) s1)"
proof -
  have s1: "p_id p = next_id s" "live s1 = insert (next_id s) (live s)" "adds s1 = adds s"
      "dynamic s1 = dynamic s" "stopping s1 = stopping s"
    using st by (auto simp: addBackend_start_def Let_def split: if_splits option.splits)
  let ?s0 = "set_phase t n (PWaiting p) (s1\<lparr>live := live s\<rparr>)"
  have l: "inv_live ?s0"
    by (rule inv_live_move [where ph' = "PWaiting p", OF live t]) (simp_all add: s1)
  show ?thesis
    unfolding inv_live_def
  proof
    fix i assume i: "i \<in> live (set_phase t n (PWaiting p) s1)"
    show "\<exists>q. p_id q = i \<and> ((\<exists>k. dynamic (set_phase t n (PWaiting p) s1) k = Some q)
        \<or> q \<in> stopping (set_phase t n (PWaiting p) s1)
        \<or> (\<exists>t1 n1 ph. adds (set_phase t n (PWaiting p) s1) t1 = Some (n1, ph) \<and> stops q ph))"
    proof (cases "i \<in> live s")
      case True
      then show ?thesis using l unfolding inv_live_def by simp
    next
      case False
      with i s1 have "p_id p = i" by simp
      then show ?thesis by (intro exI [of _ p]) auto
    qed
  qed
qed

lemma inv_live_publish:
  assumes inv: "reg_inv s" and live: "inv_live s" and t: "adds s t = Some (n, POwned p)"
    and pub: "addBackend_publish n p s = (True, s1)"
  shows "inv_live (set_phase t n (PDone res) s1)"
proof -
  let ?k = "backendLookupName n"
  have s1: "live s1 = live s" "adds s1 = adds s" "dynamic s1 = (dynamic s)(?k \<mapsto> p)" "stopping s1 = stopping s"
    using pub by (auto simp: addBackend_publish_def Let_def split: if_splits)
  have free: "dynamic s ?k = None"
    using inv_freeD(2) [OF reg_invD(4) [OF inv] t] by auto
  let ?s' = "set_phase t n (PDone res) s1"
  show ?thesis
    unfolding inv_live_def
  proof
    fix i assume "i \<in> live ?s'"
    then have "i \<in> live s" using s1 by simp
    then obtain q where q: "p_id q = i" "(\<exists>k. dynamic s k = Some q) \<or> q \<in> stopping s
        \<or> (\<exists>t1 n1 ph. adds s t1 = Some (n1, ph) \<and> stops q ph)"
      using live unfolding inv_live_def by blast
    have "(\<exists>k. dynamic ?s' k = Some q)" if "dynamic s k = Some q" for k
      using that free s1 by (intro exI [of _ k]) auto
    moreover have "(\<exists>k. dynamic ?s' k = Some q) \<or> (\<exists>t1 n1 ph. adds ?s' t1 = Some (n1, ph) \<and> stops q ph)"
      if "adds s t1 = Some (n1, ph)" "stops q ph" for t1 n1 ph
    proof (cases "t1 = t")
      case True
      with that(1) t have "ph = POwned p" by simp
      with that(2) have "q = p" by simp
      then show ?thesis using s1 by (intro disjI1 exI [of _ ?k]) simp
    next
      case False
      with that s1 show ?thesis by (intro disjI2 exI [of _ t1]) auto
    qed
    ultimately show "\<exists>q. p_id q = i \<and> ((\<exists>k. dynamic ?s' k = Some q) \<or> q \<in> stopping ?s'
        \<or> (\<exists>t1 n1 ph. adds ?s' t1 = Some (n1, ph) \<and> stops q ph))"
      using q s1(4) by (metis set_phase_simps(12))
  qed
qed

lemma inv_live_tail:
  assumes live: "inv_live s" and t: "adds s t = Some (n, PTail (u # us) e)"
    and run: "run_tail (backendLookupName n) out u e s = (e1, s1)" and ok: "stop_ends_process out"
  shows "inv_live (set_phase t n (if us = [] then PDone (Inl e1) else PTail us e1) s1)"
proof (rule inv_live_move [OF live t])
  let ?ph' = "if us = [] then PDone (Inl e1) else PTail us e1"
  show "adds (set_phase t n ?ph' s1) = (adds s)(t \<mapsto> (n, ?ph'))"
    using run by (cases u) (auto split: if_splits)
  show "dynamic (set_phase t n ?ph' s1) = dynamic s" "stopping s \<subseteq> stopping (set_phase t n ?ph' s1)"
    "live (set_phase t n ?ph' s1) \<subseteq> live s"
    using run by (cases u; auto split: if_splits)+
  show "stops p ?ph' \<or> p \<in> stopping (set_phase t n ?ph' s1)"
    if "stops p (PTail (u # us) e)" "p_id p \<in> live (set_phase t n ?ph' s1)" for p
    using that run ok by (cases u) auto
qed

lemma inv_live_add_step:
  assumes inv: "reg_inv s" and live: "inv_live s" and t: "adds s t = Some (n, ph)"
    and sig: "signals_ok l s" and st: "add_step env l t n ph s = Some s'"
  shows "inv_live s'"
  using st
proof (cases rule: add_step_phases)
  case (reserve t' bs ps)
  obtain res s1 where r: "reserveDynamicAddressLocked env bs ps (backendLookupName n) (o_Bind (r_opts s)) s = (res, s1)"
    by fastforce
  from reserve st have en: "\<forall>n. enumerates (bs n) (backends s)" "\<forall>n. enumerates (ps n) (pending s)"
    by (auto simp: add_step_def split: if_splits)
  note fr = reserve_frame [OF inv en r]
  from reserve st en r obtain ph' where "s' = set_phase t n ph' s1"
    by (auto simp: add_step_def Let_def split: sum.splits prod.splits)
  with fr t reserve show ?thesis by (intro inv_live_move [OF live, of t n PAdding _ ph']) auto
next
  case (config t' res a rel)
  show ?thesis
  proof (cases res)
    case (Inl e)
    with config st have "s' = set_phase t n (PTail [TReleaseReservation a rel, TCleanupAdding] e) s"
      by (simp add: add_step_def)
    with t config show ?thesis by (intro inv_live_move [OF live, of t n "PReserved a rel"]) auto
  next
    case (Inr cfg)
    with config st have "s' = set_phase t n (PConfigured a rel cfg) (s\<lparr>files := insert cfg (files s)\<rparr>)"
      by (auto simp: add_step_def split: if_splits)
    with t config show ?thesis by (intro inv_live_move [OF live, of t n "PReserved a rel"]) auto
  qed
next
  case (start t' err a rel cfg)
  have ts: "adds s t = Some (n, PConfigured a rel cfg)" using t start by simp
  obtain res s1 where r: "addBackend_start err n a rel cfg s = (res, s1)" by fastforce
  show ?thesis
  proof (cases res)
    case (Inr p)
    with r inv_live_start [OF live ts] st start show ?thesis by (auto simp: add_step_def)
  next
    case (Inl x)
    then have s1: "s1 = cleanupAdding (backendLookupName n) s"
      using r by (auto simp: addBackend_start_def Let_def split: if_splits option.splits)
    from Inl r st start obtain ph' where "s' = set_phase t n ph' s1"
      by (cases x) (auto simp: add_step_def split: bool.splits)
    with ts s1 show ?thesis by (intro inv_live_move [OF live, of t n "PConfigured a rel cfg" _ ph']) auto
  qed
next
  case (wait t' err p)
  then obtain ph' where "s' = set_phase t n ph' s" "\<And>q. stops q ph' \<longleftrightarrow> p = q"
    using st by (cases err) (fastforce simp: add_step_def)+
  with t wait show ?thesis by (intro inv_live_move [OF live, of t n "PWaiting p" _ ph']) auto
next
  case (owner t' v p)
  then obtain ph' where "s' = set_phase t n ph' s" "\<And>q. stops q ph' \<longleftrightarrow> p = q"
    using st by (cases "dynamicAddressOwned (Some p) v") (fastforce simp: add_step_def)+
  with t owner show ?thesis by (intro inv_live_move [OF live, of t n "PReady p" _ ph']) auto
next
  case (publish t' p)
  have tp: "adds s t = Some (n, POwned p)" using t publish by simp
  obtain b s1 where r: "addBackend_publish n p s = (b, s1)" by fastforce
  show ?thesis
  proof (cases b)
    case True
    then have "s' = (set_phase t n (PDone (Inr (p_addr p))) s1)\<lparr>watching :=
        insert (backendLookupName n, p) (watching s1)\<rparr>"
      using st publish r by (simp add: add_step_def)
    moreover have "inv_live (set_phase t n (PDone (Inr (p_addr p))) s1)"
      using inv_live_publish [OF inv live tp, of s1] r True by simp
    ultimately show ?thesis by (simp add: inv_live_def)
  next
    case False
    then have s1: "adds s1 = adds s" "dynamic s1 = dynamic s" "stopping s1 = stopping s" "live s1 = live s"
      using r by (auto simp: addBackend_publish_def Let_def split: if_splits)
    obtain ph' where "s' = set_phase t n ph' s1" "\<And>q. stops q ph' \<longleftrightarrow> p = q"
      using False st publish r by (fastforce simp add: add_step_def)
    with tp s1 show ?thesis by (intro inv_live_move [OF live, of t n "POwned p" _ ph']) auto
  qed
next
  case (tail t' out u us e)
  have tt: "adds s t = Some (n, PTail (u # us) e)" using t tail by simp
  obtain e1 s1 where r: "run_tail (backendLookupName n) out u e s = (e1, s1)" by fastforce
  from inv_live_tail [OF live tt r] sig st tail r show ?thesis
    by (auto simp: add_step_def signals_ok_def split: if_splits)
qed

theorem inv_live_step:
  assumes inv: "reg_inv s" and live: "inv_live s" and sig: "signals_ok l s"
    and st: "sub_step env l s = Some s'"
  shows "inv_live s'"
proof (cases l)
  case (LBegin t name)
  from st LBegin have t: "adds s t = None"
    by (cases "adds s t") (auto simp: sub_step_def split: if_splits)
  show ?thesis
  proof (cases "addBackend_begin name s")
    case (Inl e)
    with st LBegin have "s' = set_phase t name (PDone (Inl e)) s"
      by (auto simp: sub_step_def split: if_splits)
    with t show ?thesis by (intro inv_live_mono [OF live]) auto
  next
    case (Inr s1)
    with st LBegin have "s' = set_phase t name PAdding s1"
      by (auto simp: sub_step_def split: if_splits)
    with t Inr [unfolded addBackend_begin_ok] show ?thesis by (intro inv_live_mono [OF live]) auto
  qed
next
  case (LRemove name)
  show ?thesis
  proof (cases "dynamic s (backendLookupName name)")
    case None
    with st LRemove have "s' = s"
      by (auto simp: sub_step_def removeBackend_begin_def Let_def split: sum.splits)
    with live show ?thesis by simp
  next
    case (Some p)
    with st LRemove have "s' = (unpublish (backendLookupName name) p s)
        \<lparr>stopping := insert p (stopping s)\<rparr>"
      by (auto simp: sub_step_def removeBackend_begin_def Let_def)
    with Some show ?thesis by (intro inv_live_mono [OF live]) auto
  qed
next
  case (LStopped p out)
  with st have "s' = (snd (stopSubprocessBackend out p s))\<lparr>stopping := stopping s - {p}\<rparr>"
    by (auto simp: sub_step_def split: if_splits)
  moreover have "stop_ends_process out" using sig LStopped by (simp add: signals_ok_def)
  ultimately show ?thesis by (intro inv_live_mono [OF live]) auto
next
  case (LExit i)
  with st have "s' = s\<lparr>live := live s - {i}\<rparr>" by (auto simp: sub_step_def)
  then show ?thesis by (intro inv_live_mono [OF live]) auto
next
  case (LWatch key p)
  with st have s': "s' = (dynamicBackendExited key p s)\<lparr>watching := watching s - {(key, p)}\<rparr>"
      and "p_id p \<notin> live s"
    by (auto simp: sub_step_def split: if_splits)
  then show ?thesis
    by (intro inv_live_mono [OF live]) (auto simp: s' dynamicBackendExited_def Let_def split: if_splits)
next
  case (LHealthy b)
  with st have "s' = s\<lparr>healthy := b\<rparr>" by (auto simp: sub_step_def split: if_splits)
  then show ?thesis by (intro inv_live_mono [OF live]) auto
next
  case (LStopAll ds ps)
  obtain procs s1 where c: "stopDynamicBackends_collect ds ps s = (procs, s1)" by fastforce
  with st LStopAll have e: "enumerates ds (dynamic s)" and s': "s' = s1\<lparr>stopping := stopping s1 \<union> set procs, run_over := True\<rparr>"
    by (auto simp: sub_step_def split: if_splits)
  have "p \<in> set procs" if "dynamic s k = Some p" for k p
    using c that enumerates_set [OF e, of k p] by (force simp: stopDynamicBackends_collect_def)
  with c show ?thesis unfolding s'
    by (intro inv_live_mono [OF live]) (auto simp: stopDynamicBackends_collect_def foldl_unpublish_frame)
qed (use st sig in \<open>auto simp: sub_step_def split: option.splits intro: inv_live_add_step [OF inv live]\<close>)

lemma inv_live_fresh: "inv_live (fresh_run b opts B)"
  by (simp add: inv_live_def fresh_run_def)

lemma inv_live_reach:
  assumes "reach env ok s0 s" and "reg_inv s0" and "inv_live s0"
    and "\<And>l s. ok l s \<Longrightarrow> serial l s \<and> signals_ok l s"
  shows "inv_live s"
  using assms
proof (induction rule: reach.induct)
  case reach_start
  then show ?case by simp
next
  case (reach_step s l s')
  have "reg_inv s" using reg_inv_reach reach_step.hyps(1) reach_step.prems by blast
  with reach_step show ?case by (blast intro: inv_live_step)
qed

section \<open>Who gives a reservation back\<close>

fun holds_res :: "string \<Rightarrow> phase \<Rightarrow> bool" where
  "holds_res a (PReserved b rel) = (a = b)"
| "holds_res a (PConfigured b rel cfg) = (a = b)"
| "holds_res a (PWaiting p) = (a = p_addr p)"
| "holds_res a (PReady p) = (a = p_addr p)"
| "holds_res a (POwned p) = (a = p_addr p)"
| "holds_res a (PTail us e) =
     (\<exists>u \<in> set us. case u of TReleaseReservation b rel \<Rightarrow> a = b | _ \<Rightarrow> False)"
| "holds_res a _ = False"

definition inv_res :: "threads \<Rightarrow> (string \<rightharpoonup> string) \<Rightarrow> bool" where
  "inv_res A R \<longleftrightarrow>
     (\<forall>a k. R a = Some k \<longrightarrow>
        (\<exists>t n ph. A t = Some (n, ph) \<and> backendLookupName n = k \<and> holds_res a ph))"

lemma holds_res_unfinished: "holds_res a ph \<Longrightarrow> \<not> finished ph"
  by (cases ph) auto

lemma inv_res_move:
  assumes "inv_res A R" and "A t = Some (n, ph)" and "\<And>a k. R' a = Some k \<Longrightarrow> R a = Some k"
    and "\<And>a. holds_res a ph \<Longrightarrow> holds_res a ph' \<or> R' a \<noteq> Some (backendLookupName n)"
  shows "inv_res (A(t \<mapsto> (n, ph'))) R'"
  unfolding inv_res_def
proof (intro allI impI)
  fix a k assume R': "R' a = Some k"
  then obtain t1 n1 ph1 where 1: "A t1 = Some (n1, ph1)" "backendLookupName n1 = k" "holds_res a ph1"
    using assms(1,3) unfolding inv_res_def by blast
  show "\<exists>t1 n1 ph1. (A(t \<mapsto> (n, ph'))) t1 = Some (n1, ph1) \<and> backendLookupName n1 = k \<and> holds_res a ph1"
  proof (cases "t1 = t")
    case True
    with 1 assms(2,4) R' show ?thesis by (intro exI [of _ t]) auto
  next
    case False
    with 1 show ?thesis by (intro exI [of _ t1]) auto
  qed
qed

lemma inv_res_mono:
  assumes "inv_res A R" and "\<And>a k. R' a = Some k \<Longrightarrow> R a = Some k"
    and "\<And>t n ph. A t = Some (n, ph) \<Longrightarrow> \<not> finished ph \<Longrightarrow> A' t = Some (n, ph)"
  shows "inv_res A' R'"
  using assms holds_res_unfinished unfolding inv_res_def by metis

lemma inv_res_reserve:
  assumes "inv_res A R" and "A t = Some (n, PAdding)"
  shows "inv_res (A(t \<mapsto> (n, PReserved a rel))) (R(a \<mapsto> backendLookupName n))"
  unfolding inv_res_def
proof (intro allI impI)
  fix b k assume b: "(R(a \<mapsto> backendLookupName n)) b = Some k"
  let ?A = "A(t \<mapsto> (n, PReserved a rel))"
  show "\<exists>t1 n1 ph1. ?A t1 = Some (n1, ph1) \<and> backendLookupName n1 = k \<and> holds_res b ph1"
  proof (cases "b = a")
    case True
    with b show ?thesis by (intro exI [of _ t]) auto
  next
    case False
    with b have "R b = Some k" by simp
    with assms(1) obtain t1 n1 ph1
      where 1: "A t1 = Some (n1, ph1)" "backendLookupName n1 = k" "holds_res b ph1"
      unfolding inv_res_def by blast
    with assms(2) have "t1 \<noteq> t" by auto
    with 1 show ?thesis by (intro exI [of _ t1]) auto
  qed
qed

lemma inv_res_tail:
  assumes "inv_res (adds s) (reserving s)" and t: "adds s t = Some (n, PTail (u # us) e)"
    and run: "run_tail (backendLookupName n) out u e s = (e1, s1)"
  shows "inv_res ((adds s)(t \<mapsto> (n, if us = [] then PDone (Inl e1) else PTail us e1))) (reserving s1)"
proof (rule inv_res_move [OF assms(1) t])
  show "reserving s1 a = Some k \<Longrightarrow> reserving s a = Some k" for a k
    using run by (cases u) (auto simp: releaseReservation_reserving split: if_splits)
  show "holds_res a (PTail (u # us) e) \<Longrightarrow> holds_res a (if us = [] then PDone (Inl e1) else PTail us e1)
      \<or> reserving s1 a \<noteq> Some (backendLookupName n)" for a
    using run by (cases u) (auto simp: releaseReservation_reserving split: if_splits)
qed

lemma inv_res_add_step:
  assumes inv: "reg_inv s" and res: "inv_res (adds s) (reserving s)" and t: "adds s t = Some (n, ph)"
    and st: "add_step env l t n ph s = Some s'"
  shows "inv_res (adds s') (reserving s')"
  using st
proof (cases rule: add_step_phases)
  case (reserve t' bs ps)
  obtain r s1 where r: "reserveDynamicAddressLocked env bs ps (backendLookupName n) (o_Bind (r_opts s)) s = (r, s1)"
    by fastforce
  from reserve st have en: "\<forall>n. enumerates (bs n) (backends s)" "\<forall>n. enumerates (ps n) (pending s)"
    by (auto simp: add_step_def split: if_splits)
  have tp: "adds s t = Some (n, PAdding)" using t reserve by simp
  have lk: "backendLookupName (backendLookupName n) = backendLookupName n" by simp
  from reserve_effect [OF r en lk reg_invD(9) [OF inv]] show ?thesis
  proof (elim disjE exE conjE)
    fix e c l assume "r = Inl e" "s1 = s\<lparr>clock := c, released := l\<rparr>"
    with reserve st en r have "adds s' = (adds s)(t \<mapsto> (n, PTail [TCleanupAdding] (Wrapped e [n])))"
        "reserving s' = reserving s"
      by (auto simp: add_step_def Let_def)
    then show ?thesis using inv_res_move [OF res tp, where R' = "reserving s"] by auto
  next
    fix a rel c l assume "r = Inr (a, rel)"
      "s1 = s\<lparr>clock := c, released := l, reserving := (reserving s)(a \<mapsto> backendLookupName n)\<rparr>"
    with reserve st en r have "adds s' = (adds s)(t \<mapsto> (n, PReserved a rel))"
        "reserving s' = (reserving s)(a \<mapsto> backendLookupName n)"
      by (auto simp: add_step_def Let_def)
    then show ?thesis using inv_res_reserve [OF res tp] by simp
  qed
next
  case (config t' out a rel)
  have tp: "adds s t = Some (n, PReserved a rel)" using t config by simp
  from config st have "(\<exists>e. adds s' = (adds s)(t \<mapsto> (n, PTail [TReleaseReservation a rel, TCleanupAdding] e)))
      \<or> (\<exists>cfg. adds s' = (adds s)(t \<mapsto> (n, PConfigured a rel cfg)))" "reserving s' = reserving s"
    by (auto simp: add_step_def split: sum.splits if_splits)
  then show ?thesis using inv_res_move [OF res tp, where R' = "reserving s"] by auto
next
  case (start t' err a rel cfg)
  have tp: "adds s t = Some (n, PConfigured a rel cfg)" using t start by simp
  from start st have "\<exists>ph'. adds s' = (adds s)(t \<mapsto> (n, ph')) \<and> holds_res a ph'" "reserving s' = reserving s"
    by (auto simp: add_step_def addBackend_start_def Let_def split: if_splits option.splits)
  then show ?thesis using inv_res_move [OF res tp, where R' = "reserving s"] by auto
next
  case (wait t' err p)
  have tp: "adds s t = Some (n, PWaiting p)" using t wait by simp
  from wait st have "\<exists>ph'. adds s' = (adds s)(t \<mapsto> (n, ph')) \<and> holds_res (p_addr p) ph'" "reserving s' = reserving s"
    by (auto simp: add_step_def split: option.splits)
  then show ?thesis using inv_res_move [OF res tp, where R' = "reserving s"] by auto
next
  case (owner t' v p)
  have tp: "adds s t = Some (n, PReady p)" using t owner by simp
  from owner st have "\<exists>ph'. adds s' = (adds s)(t \<mapsto> (n, ph')) \<and> holds_res (p_addr p) ph'" "reserving s' = reserving s"
    by (auto simp: add_step_def split: if_splits)
  then show ?thesis using inv_res_move [OF res tp, where R' = "reserving s"] by auto
next
  case (publish t' p)
  have tp: "adds s t = Some (n, POwned p)" using t publish by simp
  obtain b s1 where r: "addBackend_publish n p s = (b, s1)" by fastforce
  show ?thesis
  proof (cases b)
    case True
    with publish st r have s': "adds s' = (adds s)(t \<mapsto> (n, PDone (Inr (p_addr p))))"
        "reserving s' = (if reserving s (p_addr p) = Some (backendLookupName n)
           then map_remove (reserving s) (p_addr p) else reserving s)"
      by (auto simp: add_step_def addBackend_publish_def Let_def split: if_splits)
    show ?thesis unfolding s'(1)
      by (rule inv_res_move [of "adds s" "reserving s" t n "POwned p"])
        (simp_all add: res tp s'(2) map_remove_def split: if_splits)
  next
    case False
    with publish st r have "\<exists>ph'. adds s' = (adds s)(t \<mapsto> (n, ph')) \<and> holds_res (p_addr p) ph'"
        "reserving s' = reserving s"
      by (auto simp: add_step_def addBackend_publish_def Let_def split: if_splits)
    then show ?thesis using inv_res_move [OF res tp, where R' = "reserving s"] by auto
  qed
next
  case (tail t' out u us e)
  have tp: "adds s t = Some (n, PTail (u # us) e)" using t tail by simp
  obtain e1 s1 where r: "run_tail (backendLookupName n) out u e s = (e1, s1)" by fastforce
  have "adds s1 = adds s" using r by (cases u) (auto split: if_splits)
  with inv_res_tail [OF res tp r] tail st r show ?thesis
    by (auto simp: add_step_def split: if_splits)
qed

theorem inv_res_step:
  assumes inv: "reg_inv s" and res: "inv_res (adds s) (reserving s)" and st: "sub_step env l s = Some s'"
  shows "inv_res (adds s') (reserving s')"
proof (cases l)
  case (LBegin t name)
  from st LBegin have t: "adds s t = None"
    by (cases "adds s t") (auto simp: sub_step_def split: if_splits)
  have "\<exists>ph. adds s' = (adds s)(t \<mapsto> (name, ph)) \<and> reserving s' = reserving s"
    using st LBegin by (auto simp: sub_step_def addBackend_begin_ok split: if_splits sum.splits)
  with t show ?thesis by (auto intro!: inv_res_mono [OF res])
next
  case (LRemove name)
  with st have "adds s' = adds s" "reserving s' = reserving s"
    by (auto simp: sub_step_def removeBackend_begin_def Let_def split: option.splits sum.splits)
  with res show ?thesis by simp
next
  case (LStopped p out)
  with st res show ?thesis by (auto simp: sub_step_def split: if_splits)
next
  case (LExit i)
  with st res show ?thesis by (auto simp: sub_step_def)
next
  case (LWatch key p)
  with st have "adds s' = adds s" "reserving s' = reserving s"
    by (auto simp: sub_step_def dynamicBackendExited_def Let_def split: if_splits)
  with res show ?thesis by simp
next
  case (LHealthy b)
  with st res show ?thesis by (auto simp: sub_step_def split: if_splits)
next
  case (LStopAll ds ps)
  with st have "adds s' = adds s" "reserving s' = Map.empty"
    by (auto simp: sub_step_def stopDynamicBackends_collect_def foldl_unpublish_frame split: if_splits)
  then show ?thesis by (simp add: inv_res_def)
qed (use st in \<open>auto simp: sub_step_def split: option.splits intro: inv_res_add_step [OF inv res]\<close>)

lemma inv_res_reach:
  assumes "reach env ok s0 s" and "reg_inv s0" and "inv_res (adds s0) (reserving s0)"
    and "\<And>l s. ok l s \<Longrightarrow> serial l s"
  shows "inv_res (adds s) (reserving s)"
  using assms
proof (induction rule: reach.induct)
  case reach_start
  then show ?case by simp
next
  case (reach_step s l s')
  have "reg_inv s" using reg_inv_reach reach_step.hyps(1) reach_step.prems by blast
  with reach_step show ?case by (blast intro: inv_res_step)
qed

lemma inv_res_fresh: "inv_res (adds (fresh_run b opts B)) (reserving (fresh_run b opts B))"
  by (simp add: inv_res_def fresh_run_def)

end
