(* ===== verification/RegistryProps.thy ===== *)
theory RegistryProps
  imports RegistryTheorems
begin

text \<open>
  What the invariant of the concurrent runner means for its callers: who resolves to
  which address, that nothing is left behind, and two runs of the code in which
  something is left behind, one with two concurrent adds of a backend (excluded by
  \<open>serial\<close>), one with a published runtime that exits by itself.
\<close>

section \<open>Static backends stay\<close>

text \<open>Outside the classes of the dynamic backends the published addresses are the static
  ones, and no static backend is in such a class.\<close>

definition inv_static :: "(string \<rightharpoonup> string) \<Rightarrow> (string \<rightharpoonup> string) \<Rightarrow> (string \<rightharpoonup> proc) \<Rightarrow> bool" where
  "inv_static B0 B D \<longleftrightarrow>
     (\<forall>n. backendLookupName n \<notin> dom D \<longrightarrow> B n = B0 n) \<and> (\<forall>n \<in> dom B0. backendLookupName n \<notin> dom D)"

lemma inv_staticD:
  assumes "inv_static B0 B D"
  shows "backendLookupName n \<notin> dom D \<Longrightarrow> B n = B0 n" "n \<in> dom B0 \<Longrightarrow> backendLookupName n \<notin> dom D"
  using assms unfolding inv_static_def by blast+

lemma inv_static_unpublish:
  assumes inv: "inv_static B0 B D" "inv_dynamic B D" and p: "D k = Some p"
  shows "inv_static B0 (map_remove (map_remove B (p_name p)) (backendLookupName (p_name p)))
           (map_remove D k)"
  unfolding inv_static_def
proof (intro conjI allI impI ballI)
  note d = inv_dynamicD [OF inv(2) p]
  fix n assume n: "backendLookupName n \<notin> dom (map_remove D k)"
  show "map_remove (map_remove B (p_name p)) (backendLookupName (p_name p)) n = B0 n"
  proof (cases "backendLookupName n = k")
    case True
    with p have "n \<notin> dom B0" using inv_staticD(2) [OF inv(1), of n] by blast
    then have "B0 n = None" by blast
    moreover have "B n = None \<or> n = p_name p \<or> n = k" using d(4) [of n] True by (auto simp: domIff)
    ultimately show ?thesis using d(1) by auto
  next
    case False
    with n have "backendLookupName n \<notin> dom D" by auto
    then have "B n = B0 n" by (rule inv_staticD(1) [OF inv(1)])
    moreover have "n \<noteq> p_name p" "n \<noteq> k" using False d(1) by auto
    ultimately show ?thesis using d(1) by simp
  qed
next
  fix n assume "n \<in> dom B0"
  then show "backendLookupName n \<notin> dom (map_remove D k)"
    using inv_staticD(2) [OF inv(1), of n] by simp
qed

lemma inv_static_publish:
  assumes inv: "inv_static B0 B D" "inv_alias B" and k: "backendLookupName n \<notin> dom B"
  shows "inv_static B0 (storeBackendAddress B n a) (D(backendLookupName n \<mapsto> p))"
  unfolding inv_static_def
proof (intro conjI allI impI ballI)
  fix m assume "backendLookupName m \<notin> dom (D(backendLookupName n \<mapsto> p))"
  then have "backendLookupName m \<noteq> backendLookupName n" "backendLookupName m \<notin> dom D" by auto
  then show "storeBackendAddress B n a m = B0 m"
    using inv_staticD(1) [OF inv(1), of m] by (simp add: store_other_key)
next
  fix m assume m: "m \<in> dom B0"
  then have D: "backendLookupName m \<notin> dom D" by (rule inv_staticD(2) [OF inv(1)])
  with m have "m \<in> dom B" using inv_staticD(1) [OF inv(1), of m] by (auto simp: domIff)
  then have "backendLookupName m \<in> dom B" using inv_aliasD [OF inv(2)] by blast
  with k have "backendLookupName m \<noteq> backendLookupName n" by auto
  with D show "backendLookupName m \<notin> dom (D(backendLookupName n \<mapsto> p))" by simp
qed

lemma add_step_published:
  assumes inv: "reg_inv s" and t: "adds s t = Some (n, ph)" and st: "add_step env l t n ph s = Some s'"
  shows "(backends s' = backends s \<and> dynamic s' = dynamic s)
    \<or> (\<exists>p. ph = POwned p \<and> adds s' t = Some (n, PDone (Inr (p_addr p)))
          \<and> backends s' = storeBackendAddress (backends s) n (p_addr p)
          \<and> dynamic s' = (dynamic s)(backendLookupName n \<mapsto> p))"
  using st
proof (cases rule: add_step_phases)
  case (reserve t' bs ps)
  obtain r s1 where r: "reserveDynamicAddressLocked env bs ps (backendLookupName n) (o_Bind (r_opts s)) s = (r, s1)"
    by fastforce
  from reserve st have en: "\<forall>n. enumerates (bs n) (backends s)" "\<forall>n. enumerates (ps n) (pending s)"
    by (auto simp: add_step_def split: if_splits)
  have lk: "backendLookupName (backendLookupName n) = backendLookupName n" by simp
  have "backends s1 = backends s \<and> dynamic s1 = dynamic s"
    using reserve_effect [OF r en lk reg_invD(9) [OF inv]] by (elim disjE exE conjE) simp_all
  with reserve st en r show ?thesis by (cases r) (auto simp: add_step_def Let_def)
next
  case (start t' err a rel cfg)
  then show ?thesis using st
    by (auto simp: add_step_def addBackend_start_def Let_def split: if_splits option.splits)
next
  case (publish t' p)
  then show ?thesis using st
    by (auto simp: add_step_def addBackend_publish_def Let_def split: if_splits)
next
  case (tail t' out u us e)
  obtain e1 s1 where r: "run_tail (backendLookupName n) out u e s = (e1, s1)" by fastforce
  have "backends s1 = backends s \<and> dynamic s1 = dynamic s" using r by (cases u) (auto split: if_splits)
  with tail st r show ?thesis by (auto simp: add_step_def split: if_splits)
next
  case (config t' res a rel)
  then show ?thesis using st by (auto simp: add_step_def split: sum.splits if_splits)
next
  case (wait t' err p)
  then show ?thesis using st by (auto simp: add_step_def split: option.splits)
next
  case (owner t' v p)
  then show ?thesis using st by (auto simp: add_step_def split: if_splits)
qed

lemma foldl_unpublish_static:
  assumes "reg_inv s" and "inv_static B0 (backends s) (dynamic s)" and "distinct (map fst ds)"
    and "\<forall>(k, p) \<in> set ds. dynamic s k = Some p"
  shows "inv_static B0 (backends (foldl (\<lambda>r (k, p). unpublish k p r) s ds))
    (dynamic (foldl (\<lambda>r (k, p). unpublish k p r) s ds))"
  using assms
proof (induction ds arbitrary: s)
  case Nil
  then show ?case by simp
next
  case (Cons d ds)
  obtain k p where d: "d = (k, p)" by fastforce
  have 1: "reg_inv (unpublish k p s)" using Cons.prems d by (auto intro: reg_inv_unpublish)
  have 2: "\<forall>(j, q) \<in> set ds. dynamic (unpublish k p s) j = Some q"
    using Cons.prems d by (force simp: image_iff)
  have 3: "inv_static B0 (backends (unpublish k p s)) (dynamic (unpublish k p s))"
    using inv_static_unpublish [OF Cons.prems(2) reg_invD(6) [OF Cons.prems(1)], of k p] Cons.prems(4) d
    by (simp add: unpublish_def del: map_remove_apply)
  have 4: "distinct (map fst ds)" using Cons.prems(3) by simp
  show ?case using Cons.IH [OF 1 3 4 2] d by simp
qed

lemma inv_static_step:
  assumes inv: "reg_inv s" and B: "inv_static B0 (backends s) (dynamic s)" and st: "sub_step env l s = Some s'"
  shows "inv_static B0 (backends s') (dynamic s')"
proof -
  note U = inv_static_unpublish [OF B reg_invD(6) [OF inv]]
  have A: "inv_static B0 (backends s') (dynamic s')"
    if t: "adds s t = Some (n, ph)" and a: "add_step env l t n ph s = Some s'" for t n ph
    using add_step_published [OF inv t a]
  proof (elim disjE exE conjE)
    assume "backends s' = backends s" "dynamic s' = dynamic s"
    with B show ?thesis by simp
  next
    fix p assume p: "ph = POwned p" "backends s' = storeBackendAddress (backends s) n (p_addr p)"
      "dynamic s' = (dynamic s)(backendLookupName n \<mapsto> p)"
    then have "backendLookupName n \<notin> dom (backends s)"
      using inv_freeD(1) [OF reg_invD(4) [OF inv] t] by auto
    with p show ?thesis using inv_static_publish [OF B reg_invD(5) [OF inv]] by simp
  qed
  show ?thesis
  proof (cases l)
    case (LBegin t name)
    then show ?thesis using st B by (auto simp: sub_step_def addBackend_begin_ok split: if_splits sum.splits)
  next
    case (LRemove name)
    then show ?thesis using st B U
      by (auto simp: sub_step_def removeBackend_begin_def unpublish_def Let_def split: option.splits sum.splits)
  next
    case (LStopped p out)
    then show ?thesis using st B by (auto simp: sub_step_def split: if_splits)
  next
    case (LExit i)
    then show ?thesis using st B by (auto simp: sub_step_def)
  next
    case (LWatch key p)
    then show ?thesis using st B U
      by (auto simp: sub_step_def dynamicBackendExited_def unpublish_def Let_def split: if_splits)
  next
    case (LHealthy b)
    then show ?thesis using st B by (auto simp: sub_step_def split: if_splits)
  next
    case (LStopAll ds ps)
    obtain procs s1 where c: "stopDynamicBackends_collect ds ps s = (procs, s1)" by fastforce
    with st LStopAll have s': "enumerates ds (dynamic s)"
        "s' = s1\<lparr>stopping := stopping s1 \<union> set procs, run_over := True\<rparr>"
      by (auto simp: sub_step_def split: if_splits)
    have "distinct (map fst ds)" "\<forall>(k, p) \<in> set ds. dynamic s k = Some p"
      using s'(1) enumerates_set [OF s'(1)] by (auto simp: enumerates_def)
    from foldl_unpublish_static [OF inv B this] c show ?thesis
      unfolding s'(2) by (auto simp: stopDynamicBackends_collect_def)
  qed (use st A in \<open>auto simp: sub_step_def split: option.splits\<close>)
qed

text \<open>The states in which every add has returned, and the condition of the runs with serial
  callers and working signals.\<close>

definition all_returned :: "system \<Rightarrow> bool" where
  "all_returned s \<longleftrightarrow> (\<forall>t n ph. adds s t = Some (n, ph) \<longrightarrow> finished ph)"

definition calm :: "label \<Rightarrow> system \<Rightarrow> bool" where
  "calm l s \<longleftrightarrow> serial l s \<and> signals_ok l s"

lemma inv_static_reach:
  assumes "reach env ok s0 s" and "reg_inv s0" and "inv_static B0 (backends s0) (dynamic s0)"
    and "\<And>l s. ok l s \<Longrightarrow> serial l s"
  shows "inv_static B0 (backends s) (dynamic s)"
  using assms
proof (induction rule: reach.induct)
  case reach_start
  then show ?case by simp
next
  case (reach_step s l s')
  have "reg_inv s" using reg_inv_reach reach_step.hyps(1) reach_step.prems by blast
  with reach_step show ?case by (blast intro: inv_static_step)
qed

lemma reach_serial:
  assumes "reach env serial (fresh_run b opts B) s" and "static_ok B"
  shows "reg_inv s" and "inv_static B (backends s) (dynamic s)" and "inv_res (adds s) (reserving s)"
proof -
  show "reg_inv s" using reg_inv_reach [OF assms(1) reg_inv_fresh [OF assms(2)]] by simp
  show "inv_static B (backends s) (dynamic s)"
    using inv_static_reach [OF assms(1) reg_inv_fresh [OF assms(2)], where ?B0.0 = B]
    by (simp add: inv_static_def fresh_run_def)
  show "inv_res (adds s) (reserving s)"
    using inv_res_reach [OF assms(1) reg_inv_fresh [OF assms(2)] inv_res_fresh] by simp
qed

lemma reach_calm_serial: "reach env calm s0 s \<Longrightarrow> reach env serial s0 s"
  by (induction rule: reach.induct) (auto intro: reach.intros simp: calm_def)

lemma reach_calm_live:
  assumes "reach env calm (fresh_run b opts B) s" and "static_ok B"
  shows "inv_live s"
  using inv_live_reach [OF assms(1) reg_inv_fresh [OF assms(2)] inv_live_fresh] by (simp add: calm_def)


section \<open>A concrete run\<close>

text \<open>An environment in which the embedder's hook hands out three addresses in turn, each
  with a release function; a backend \<open>alpha\<close> is added with the first one.\<close>

definition demo_addr :: string where "demo_addr = ''127.0.0.1:25001''"
definition demo_addr2 :: string where "demo_addr2 = ''127.0.0.1:25002''"
definition demo_addr3 :: string where "demo_addr3 = ''127.0.0.1:25003''"
definition demo_name :: string where "demo_name = ''Alpha''"
definition demo_key :: string where "demo_key = ''alpha''"
definition demo_bin :: string where "demo_bin = ''viaproxy''"
definition demo_cfg :: string where "demo_cfg = ''cfg-0''"
definition demo_cfg2 :: string where "demo_cfg2 = ''cfg-1''"

definition demo_env :: net_env where
  "demo_env = \<lparr>listen = (\<lambda>t a. Inr a), listen_close = (\<lambda>t. None), rand_int = (\<lambda>t n. t mod n),
     reserve_hook = (\<lambda>t h. Inr (if t = 0 then demo_addr else if t = 1 then demo_addr2 else demo_addr3, True))\<rparr>"

definition demo_opts :: options where
  "demo_opts = \<lparr>o_Mode = ModeSubprocess, o_GateProtocol = auto_version, o_Bind = default_bind,
     o_LibraryPath = [], o_BinaryPath = [], o_Version = [], o_Mirror = [], o_Offline = False,
     o_Logger = Some 0, o_RestartPolicy = None, o_ShutdownTimeout = 30 * Second,
     o_AllowDynamicBackends = True, o_Backends = [], o_ReserveHook = True\<rparr>"

definition demo_start :: system where "demo_start = fresh_run demo_bin demo_opts Map.empty"

definition demo_proc :: proc where
  "demo_proc = \<lparr>p_id = 0, p_name = demo_name, p_addr = demo_addr, p_configPath = demo_cfg,
     p_release = Release 0\<rparr>"

definition demo_add :: "label list" where
  "demo_add = [LBegin 0 demo_name, LReserve 0 (\<lambda>_. []) (\<lambda>_. []), LConfig 0 (Inr demo_cfg),
     LStart 0 None, LWait 0 None, LOwner 0 (Some True), LPublish 0]"

definition demo_published :: system where
  "demo_published = demo_start
     \<lparr>adds := [0 \<mapsto> (demo_name, PDone (Inr demo_addr))],
      backends := [demo_name \<mapsto> demo_addr, demo_key \<mapsto> demo_addr],
      dynamic := [demo_key \<mapsto> demo_proc], live := {0}, files := {demo_cfg},
      next_id := 1, clock := 1, watching := {(demo_key, demo_proc)}\<rparr>"

lemma demo_names [simp]:
  "backendLookupName demo_name = demo_key" "backendLookupName demo_key = demo_key"
  "TrimSpace demo_name = demo_name" "demo_name \<noteq> []" "demo_bin \<noteq> []" "demo_name \<noteq> demo_key"
  "demo_key \<noteq> demo_name" "demo_addr \<noteq> demo_addr2" "demo_addr2 \<noteq> demo_addr" "demo_addr3 \<noteq> demo_addr" "demo_addr3 \<noteq> demo_addr2"
  "demo_addr \<noteq> demo_addr3" "demo_addr2 \<noteq> demo_addr3"
  "demo_cfg \<noteq> demo_cfg2" "demo_cfg2 \<noteq> demo_cfg"
  by code_simp+

lemma demo_hosts [simp]: "SplitHostPort default_bind = Inr (''127.0.0.1'', ''0'')"
  by code_simp

lemma demo_allocate [simp]:
  "allocateBackendAddressLocked demo_env t True default_bind =
     (Inr (if t = 0 then demo_addr else if t = 1 then demo_addr2 else demo_addr3, Release t), Suc t)"
  by (simp add: allocateBackendAddressLocked_def demo_env_def Let_def)

lemma demo_opts_simps [simp]: "o_Bind demo_opts = default_bind" "o_ReserveHook demo_opts"
  by (simp_all add: demo_opts_def)

lemma static_ok_empty [simp]: "static_ok Map.empty"
  by (simp add: static_ok_def inv_alias_def)

lemmas section_defs =
  sub_step_def add_step_def set_phase_def addBackend_begin_def addBackend_start_def
  addBackend_publish_def reserveDynamicAddressLocked_def addressOwnerLocked_def cleanupAdding_def
  releaseReservation_def call_release_def releaseAddress_def stopSubprocessBackend_def
  unpend_def unpublish_def removeBackend_begin_def dynamicBackendExited_def
  dynamicAddressOwned_def stopDynamicBackends_collect_def storeBackendAddress_def Let_def

lemma demo_add_run: "run_labels demo_env demo_add demo_start = Some demo_published"
  by (simp add: demo_add_def demo_start_def demo_published_def fresh_run_def demo_proc_def section_defs
      numeral_eq_Suc)

text \<open>The same run seen through \<open>reach\<close>: a run whose steps all satisfy a condition.\<close>

fun all_steps :: "net_env \<Rightarrow> (label \<Rightarrow> system \<Rightarrow> bool) \<Rightarrow> label list \<Rightarrow> system \<Rightarrow> bool" where
  "all_steps env ok [] s \<longleftrightarrow> True"
| "all_steps env ok (l # ls) s \<longleftrightarrow>
     ok l s \<and> (case sub_step env l s of None \<Rightarrow> False | Some s1 \<Rightarrow> all_steps env ok ls s1)"

lemma reach_all_steps:
  "all_steps env ok ls s \<Longrightarrow> run_labels env ls s = Some s' \<Longrightarrow> reach env ok s s'"
proof (induction ls arbitrary: s)
  case Nil
  then show ?case by (simp add: reach_start)
next
  case (Cons l ls)
  then obtain s1 where s1: "ok l s" "sub_step env l s = Some s1" "all_steps env ok ls s1"
      "run_labels env ls s1 = Some s'"
    by (auto split: option.splits)
  have "reach env ok s s1" using reach_step [OF reach_start, of ok l s env s1] s1 by blast
  then show ?case by (rule reach_trans [OF Cons.IH [OF s1(3,4)]])
qed

lemma demo_calm: "all_steps demo_env calm demo_add demo_start"
  by (simp add: demo_add_def demo_start_def fresh_run_def section_defs calm_def serial_def signals_ok_def
      numeral_eq_Suc)

lemma demo_reach: "reach demo_env calm (fresh_run demo_bin demo_opts Map.empty) demo_published"
  using reach_all_steps [OF demo_calm demo_add_run] by (simp add: demo_start_def)

lemmas demo_serial = reach_calm_serial [OF demo_reach]

lemma demo_published_simps:
  "backends demo_published = [demo_name \<mapsto> demo_addr, demo_key \<mapsto> demo_addr]"
  "dynamic demo_published = [demo_key \<mapsto> demo_proc]" "healthy demo_published" "bin demo_published = demo_bin"
  "adds demo_published = [0 \<mapsto> (demo_name, PDone (Inr demo_addr))]" "pending demo_published = Map.empty"
  "adding demo_published = {}" "reserving demo_published = Map.empty" "live demo_published = {0}"
  "stopping demo_published = {}" "released demo_published = []" "\<not> run_over demo_published"
  "p_addr demo_proc = demo_addr" "p_name demo_proc = demo_name" "p_id demo_proc = 0"
  by (simp_all add: demo_published_def demo_start_def fresh_run_def demo_proc_def)

text \<open>A published address has one owner.\<close>

lemma published_one_owner:
  assumes "static_ok B" and "reach env serial (fresh_run b opts B) s"
    and "backendAddress s m = Inr a" and "backendAddress s n = Inr a"
  shows "backendLookupName m = backendLookupName n"
proof -
  have "(backendLookupName q, a) \<in> claims (backends s) (pending s) (reserving s)"
    if "backendAddress s q = Inr a" for q
    using that unfolding backendAddress_def lookup_address_def claims_def
    by (auto split: option.splits intro: backendLookupName_idem [symmetric])
  with assms(3,4) reg_invD(9) [OF reach_serial(1) [OF assms(2,1)]] show ?thesis
    unfolding one_owner_def by blast
qed

section \<open>The properties\<close>

text \<open>C1: Two names that resolve to the same published address are names of the same
  backend: in every reachable state of a subprocess run whose callers do not add one
  backend twice at the same time, an address is published for one backend only.\<close>

theorem published_addresses_distinct:
  assumes "static_ok B" and "reach env serial (fresh_run b opts B) s"
    and "backendAddress s m = Inr a" and "backendAddress s n = Inr a"
  shows "backendLookupName m = backendLookupName n"
  by (rule published_one_owner [OF assms])

lemma published_addresses_distinct_witness:
  "backendAddress demo_published demo_name = Inr demo_addr \<and> backendLookupName demo_name = backendLookupName demo_key"
  using published_addresses_distinct [OF static_ok_empty demo_serial, of demo_name demo_addr demo_key]
  by (simp add: backendAddress_def lookup_address_def demo_published_simps)

text \<open>A dynamic backend resolves to its own runtime's address under every spelling of
  its name, in every reachable state.\<close>

lemma dynamic_backend_resolves:
  assumes "static_ok B" and "reach env serial (fresh_run b opts B) s"
    and "dynamic s (backendLookupName q) = Some p"
  shows "backendAddress s q = Inr (p_addr p)"
proof -
  note d = inv_dynamicD [OF reg_invD(6) [OF reach_serial(1) [OF assms(2,1)]] assms(3)]
  show ?thesis
  proof (cases "backends s q")
    case None
    with d(2) show ?thesis by (simp add: backendAddress_def lookup_address_def)
  next
    case (Some a)
    then have "q = p_name p \<or> q = backendLookupName q" by (intro d(4)) auto
    with d(2,3) show ?thesis by (auto simp: backendAddress_def lookup_address_def split: option.splits)
  qed
qed

lemma dynamic_backend_resolves_witness: "backendAddress demo_published demo_name = Inr demo_addr"
  using dynamic_backend_resolves [OF static_ok_empty demo_serial, of demo_name demo_proc]
  by (simp add: demo_published_simps)


lemma demo_serial_again: "serial (LBegin 1 demo_name) demo_published"
  by (simp add: serial_def demo_published_simps)


text \<open>C24: Removing a name: when it belongs to a dynamic backend, afterwards no spelling of
  it resolves, every other name resolves as before and its runtime is handed over to be
  stopped; a static backend is answered with \<open>ErrDynamicBackendsUnsupported\<close>, an
  unknown name with \<open>ErrBackendNotFound\<close>, and neither changes anything.\<close>

theorem remove_takes_exactly_one:
  assumes "static_ok B" and "reach env serial (fresh_run b opts B) s"
    and "removeBackend_begin n s = (res, s')"
  shows "case dynamic s (backendLookupName n) of
      Some p \<Rightarrow> res = Inr p
        \<and> (\<forall>q. backendAddress s' q = (if backendLookupName q = backendLookupName n
               then Inl (Sentinel ErrBackendNotFound) else backendAddress s q))
    | None \<Rightarrow> s' = s \<and> res = Inl (Sentinel (if is_ok (backendAddress s n)
          then ErrDynamicBackendsUnsupported else ErrBackendNotFound))"
proof (cases "dynamic s (backendLookupName n)")
  case None
  with assms(3) show ?thesis by (auto simp: removeBackend_begin_def Let_def split: sum.splits)
next
  case (Some p)
  let ?k = "backendLookupName n"
  note d = inv_dynamicD [OF reg_invD(6) [OF reach_serial(1) [OF assms(2,1)]] Some]
  from assms(3) Some have s': "res = Inr p" "s' = unpublish ?k p s"
    by (simp_all add: removeBackend_begin_def Let_def)
  have B: "backends s' q = (if backendLookupName q = ?k then None else backends s q)" for q
    using d(1) d(4) [of q] by (cases "backends s q") (auto simp: s'(2) unpublish_def)
  with s'(1) Some show ?thesis by (simp add: backendAddress_def lookup_address_def B split: option.split)
qed

lemma remove_takes_exactly_one_witness:
  "backendAddress (snd (removeBackend_begin demo_key demo_published)) demo_name
     = Inl (Sentinel ErrBackendNotFound)"
  using remove_takes_exactly_one [OF static_ok_empty demo_serial, of demo_key
      "fst (removeBackend_begin demo_key demo_published)" "snd (removeBackend_begin demo_key demo_published)"]
  by (simp add: demo_published_simps)

text \<open>The static backends stay published at their addresses throughout a run, and when
  the run has stopped its dynamic backends exactly they are left.\<close>

lemma static_backends_stay:
  assumes "static_ok B" and "reach env serial (fresh_run b opts B) s"
  shows "(\<forall>n a. B n = Some a \<longrightarrow> backendAddress s n = Inr a) \<and> (run_over s \<longrightarrow> backends s = B)"
proof -
  note inv = reach_serial [OF assms(2,1)]
  have "backends s n = B n" if "backendLookupName n \<notin> dom (dynamic s)" for n
    by (rule inv_staticD(1) [OF inv(2) that])
  moreover have "backendLookupName n \<notin> dom (dynamic s)" if "B n = Some a" for n a
    using inv_staticD(2) [OF inv(2), of n] that by auto
  moreover have "dynamic s = Map.empty" if "run_over s"
    using reg_invD(10) [OF inv(1)] that by (simp add: inv_over_def)
  ultimately show ?thesis
    by (auto simp: backendAddress_def lookup_address_def fun_eq_iff split: option.splits)
qed

definition demo_static :: "string \<rightharpoonup> string" where "demo_static = [demo_key \<mapsto> demo_addr]"

lemma demo_static_ok: "static_ok demo_static"
  by (auto simp: static_ok_def inv_alias_def demo_static_def split: if_splits)

lemma static_backends_stay_witness:
  "backendAddress (fresh_run demo_bin demo_opts demo_static) demo_key = Inr demo_addr"
  using static_backends_stay [OF demo_static_ok reach_start] by (simp add: demo_static_def)

text \<open>C12: When every add that was begun has returned, nothing of them is left in the
  bookkeeping: no key is being added or pending, and no address is reserved.\<close>

theorem finished_adds_leave_no_claims:
  assumes "static_ok B" and "reach env serial (fresh_run b opts B) s"
    and "all_returned s"
  shows "adding s = {} \<and> pending s = Map.empty \<and> reserving s = Map.empty"
proof -
  note inv = reach_serial [OF assms(2,1)] and fin = assms(3) [unfolded all_returned_def]
  have "adding s = {}"
    using reg_invD(2) [OF inv(1)] fin cleans_not_done unfolding inv_adding_def by blast
  have "pending s k = None" for k
    using reg_invD(3) [OF inv(1)] fin unpends_not_done unfolding inv_pending_def
    by (metis not_Some_eq)
  then have "pending s = Map.empty" by auto
  have "reserving s a = None" for a
    using inv(3) fin holds_res_unfinished unfolding inv_res_def by (metis not_Some_eq)
  then have "reserving s = Map.empty" by auto
  with \<open>adding s = {}\<close> \<open>pending s = Map.empty\<close> show ?thesis by simp
qed

lemma finished_adds_leave_no_claims_witness:
  "adding demo_published = {} \<and> pending demo_published = Map.empty \<and> reserving demo_published = Map.empty"
proof -
  have "all_returned demo_published"
    by (simp add: all_returned_def demo_published_simps)
  from finished_adds_leave_no_claims [OF static_ok_empty demo_serial this] show ?thesis by blast
qed

text \<open>C3: When the run has stopped its dynamic backends, the stops it began are done and
  every add has returned, no runtime that an add started is running any more, provided
  that callers do not add one backend twice at the same time and signals reach the
  processes they are sent to.\<close>

theorem stopped_run_leaves_no_runtime:
  assumes "static_ok B" and "reach env calm (fresh_run b opts B) s"
    and "run_over s" and "stopping s = {}" and "all_returned s"
  shows "live s = {}"
proof -
  have "dynamic s = Map.empty"
    using reg_invD(10) [OF reach_serial(1) [OF reach_calm_serial [OF assms(2)] assms(1)]] assms(3)
    by (simp add: inv_over_def)
  then show ?thesis
    using reach_calm_live [OF assms(2,1)] assms(4) assms(5) [unfolded all_returned_def] stops_not_done
    unfolding inv_live_def
    by (metis all_not_in_conv empty_iff option.distinct(1))
qed

definition demo_shutdown :: "label list" where
  "demo_shutdown = demo_add @
     [LHealthy False, LStopAll [(demo_key, demo_proc)] [], LStopped demo_proc (ExitedAfterSignal None)]"

definition demo_stopped :: system where
  "demo_stopped = demo_published
     \<lparr>healthy := False, backends := Map.empty, dynamic := Map.empty, live := {}, files := {},
      released := [0], run_over := True\<rparr>"

lemma run_labels_append:
  "run_labels env (ls @ ms) s = (case run_labels env ls s of None \<Rightarrow> None | Some s1 \<Rightarrow> run_labels env ms s1)"
  by (induction ls arbitrary: s) (auto split: option.splits)

lemma all_steps_append:
  "all_steps env ok (ls @ ms) s \<longleftrightarrow>
     all_steps env ok ls s \<and> (\<forall>s1. run_labels env ls s = Some s1 \<longrightarrow> all_steps env ok ms s1)"
  by (induction ls arbitrary: s) (auto split: option.splits)

lemma demo_enumerates [simp]: "enumerates [(k, v)] m \<longleftrightarrow> m = [k \<mapsto> v]"
  by (auto simp: enumerates_def)

lemma demo_shutdown_run: "run_labels demo_env demo_shutdown demo_start = Some demo_stopped"
  unfolding demo_shutdown_def run_labels_append demo_add_run
  by (simp add: demo_published_def demo_stopped_def demo_start_def fresh_run_def demo_proc_def section_defs
      stop_possible_def)

lemma demo_shutdown_calm: "all_steps demo_env calm demo_shutdown demo_start"
  unfolding demo_shutdown_def all_steps_append demo_add_run
  using demo_calm
  by (simp add: demo_published_def demo_start_def fresh_run_def demo_proc_def section_defs
      stop_possible_def calm_def serial_def signals_ok_def)

lemma demo_shutdown_reach: "reach demo_env calm (fresh_run demo_bin demo_opts Map.empty) demo_stopped"
  using reach_all_steps [OF demo_shutdown_calm demo_shutdown_run] by (simp add: demo_start_def)

lemma stopped_run_leaves_no_runtime_witness: "live demo_stopped = {}"
proof (rule stopped_run_leaves_no_runtime [OF static_ok_empty demo_shutdown_reach])
  show "run_over demo_stopped" "stopping demo_stopped = {}"
    and "all_returned demo_stopped"
    by (simp_all add: all_returned_def demo_stopped_def demo_published_simps)
qed

section \<open>Runs in which something is left behind\<close>

text \<open>A runtime that exits by itself after it was published: the goroutine that watches it
  takes it out of the registry and removes its file, and nobody is left who would call the
  embedder's release function.\<close>

definition demo_crash :: "label list" where
  "demo_crash = demo_add @ [LExit 0, LWatch demo_key demo_proc]"


text \<open>Three adds of one backend. The start of the first fails; its second clean-up deletes
  the marker of the second add, which lets the third in. Both publish, the later one over the
  earlier.\<close>

definition demo_proc1 :: proc where
  "demo_proc1 = \<lparr>p_id = 0, p_name = demo_name, p_addr = demo_addr2, p_configPath = demo_cfg,
     p_release = Release 1\<rparr>"

definition demo_proc2 :: proc where
  "demo_proc2 = \<lparr>p_id = 1, p_name = demo_name, p_addr = demo_addr3, p_configPath = demo_cfg2,
     p_release = Release 2\<rparr>"

definition demo_double :: "label list" where
  "demo_double =
     [LBegin 0 demo_name, LReserve 0 (\<lambda>_. []) (\<lambda>_. []), LConfig 0 (Inr demo_cfg2),
      LStart 0 (Some (LibError ''fork'')), LTail 0 KilledOnTimeout,
      LBegin 1 demo_name, LTail 0 KilledOnTimeout, LTail 0 KilledOnTimeout, LBegin 2 demo_name]"

definition demo_both :: "label list" where
  "demo_both =
     [LReserve 1 (\<lambda>_. []) (\<lambda>_. []), LReserve 2 (\<lambda>_. []) (\<lambda>_. []),
      LConfig 1 (Inr demo_cfg), LStart 1 None, LWait 1 None, LOwner 1 (Some True), LPublish 1,
      LConfig 2 (Inr demo_cfg2), LStart 2 None, LWait 2 None, LOwner 2 (Some True), LPublish 2]"

definition demo_drain :: "label list" where
  "demo_drain = [LHealthy False, LStopAll [(demo_key, demo_proc2)] [], LStopped demo_proc2 (ExitedAfterSignal None)]"

definition demo_doubled :: system where
  "demo_doubled = demo_start
     \<lparr>adds := [1 \<mapsto> (demo_name, PAdding), 0 \<mapsto> (demo_name, PDone (Inl (LibError ''fork''))),
               2 \<mapsto> (demo_name, PAdding)],
      adding := {demo_key}, released := [0], clock := 1\<rparr>"

definition demo_orphaned :: system where
  "demo_orphaned = demo_start
     \<lparr>adds := [0 \<mapsto> (demo_name, PDone (Inl (LibError ''fork''))),
               1 \<mapsto> (demo_name, PDone (Inr demo_addr2)), 2 \<mapsto> (demo_name, PDone (Inr demo_addr3))],
      backends := [demo_name \<mapsto> demo_addr3, demo_key \<mapsto> demo_addr3], dynamic := [demo_key \<mapsto> demo_proc2],
      live := {1, 0}, files := {demo_cfg2, demo_cfg}, released := [0], next_id := 2, clock := 3,
      watching := {(demo_key, demo_proc2), (demo_key, demo_proc1)}\<rparr>"

lemma demo_double_run: "run_labels demo_env demo_double demo_start = Some demo_doubled"
  by (simp add: demo_double_def demo_start_def demo_doubled_def fresh_run_def section_defs numeral_eq_Suc)

lemma demo_both_run: "run_labels demo_env demo_both demo_doubled = Some demo_orphaned"
  by (simp add: demo_both_def demo_start_def demo_doubled_def demo_orphaned_def fresh_run_def section_defs
      demo_proc1_def demo_proc2_def numeral_eq_Suc)

lemma demo_orphan_run:
  "run_labels demo_env (demo_double @ demo_both @ demo_drain) demo_start = Some (demo_orphaned
     \<lparr>healthy := False, backends := Map.empty, dynamic := Map.empty, live := {0}, files := {demo_cfg},
      released := [0, 2], run_over := True\<rparr>)"
  unfolding run_labels_append demo_double_run demo_both_run option.case
  by (simp add: demo_drain_def demo_start_def demo_orphaned_def fresh_run_def section_defs
      demo_proc1_def demo_proc2_def stop_possible_def)

text \<open>C36: Without the restriction on callers a runtime can outlive its run: three
  overlapping adds of one backend, of which the first fails to start, reach a state in
  which the run is over, all adds have returned, nothing is being stopped, the registry is
  empty, and a runtime is still running.\<close>

theorem overlapping_adds_orphan_a_runtime:
  "\<exists>s. reach demo_env signals_ok (fresh_run demo_bin demo_opts Map.empty) s \<and> run_over s
     \<and> stopping s = {} \<and> dynamic s = Map.empty \<and> all_returned s \<and> 0 \<in> live s"
proof -
  have "all_steps demo_env signals_ok (demo_double @ demo_both @ demo_drain) demo_start"
    unfolding all_steps_append
    by (simp add: demo_double_def demo_both_def demo_drain_def demo_start_def demo_orphaned_def fresh_run_def
        section_defs signals_ok_def demo_proc1_def demo_proc2_def stop_possible_def numeral_eq_Suc)
  from reach_all_steps [OF this demo_orphan_run] show ?thesis
    by (intro exI conjI, unfold demo_start_def)
      (auto simp: demo_orphaned_def demo_start_def fresh_run_def all_returned_def split: if_splits)
qed

end
