(* ===== verification/BackendRegistry.thy ===== *)
theory BackendRegistry
  imports Options
begin

text \<open>
  The part of the \<^verbatim>\<open>runner\<close> interface of \<^verbatim>\<open>server.go\<close> that deals with backends
  (\<open>backendAddress\<close>, \<open>addBackend\<close>, \<open>removeBackend\<close>) as a locale: what a server
  relies on, whichever runner it was created with. The laws are those of a map from lookup
  names to addresses; \<open>spec_step\<close> is that map as an abstract machine, and the locale proves
  that every provider of the interface implements it. The subprocess runner (theory
  \<open>AddBackend\<close>) and the embedded runner (theory \<open>Embedded\<close>) are its interpretations.
\<close>

section \<open>The abstract registry\<close>

datatype ('a, 'r) request = AddRequest 'a backend | RemoveRequest 'r string

datatype reply = AddReply "(go_error, string) result" | RemoveReply "go_error option"

fun request_key :: "('a, 'r) request \<Rightarrow> string" where
  "request_key (AddRequest x b) = backendLookupName (b_Name b)"
| "request_key (RemoveRequest y n) = backendLookupName n"

text \<open>A registered name has one address, until it is removed; a failed request changes
  nothing, except that a removal may take the backend out and fail to stop it.\<close>

inductive spec_step ::
  "(string \<rightharpoonup> string) \<Rightarrow> ('a, 'r) request \<Rightarrow> reply \<Rightarrow> (string \<rightharpoonup> string) \<Rightarrow> bool" where
  spec_added: "m (backendLookupName (b_Name b)) = None \<Longrightarrow>
     spec_step m (AddRequest x b) (AddReply (Inr a)) (m(backendLookupName (b_Name b) \<mapsto> a))"
| spec_add_failed: "spec_step m (AddRequest x b) (AddReply (Inl e)) m"
| spec_removed: "m (backendLookupName n) \<noteq> None \<Longrightarrow>
     spec_step m (RemoveRequest y n) (RemoveReply None) (map_remove m (backendLookupName n))"
| spec_remove_failed: "spec_step m (RemoveRequest y n) (RemoveReply (Some e)) m"
| spec_removed_unstopped: "m (backendLookupName n) \<noteq> None \<Longrightarrow>
     spec_step m (RemoveRequest y n) (RemoveReply (Some e)) (map_remove m (backendLookupName n))"

inductive_simps spec_step_simps:
  "spec_step m (AddRequest x b) (AddReply (Inr a)) m'"
  "spec_step m (AddRequest x b) (AddReply (Inl e)) m'"
  "spec_step m (RemoveRequest y n) (RemoveReply None) m'"
  "spec_step m (RemoveRequest y n) (RemoveReply (Some e)) m'"

inductive_cases spec_stepE: "spec_step m req rep m'"

lemma spec_step_other: "spec_step m req rep m' \<Longrightarrow> request_key req \<noteq> k \<Longrightarrow> m' k = m k"
  by (erule spec_stepE) auto

section \<open>Serving requests\<close>

fun serve_one ::
  "('a \<Rightarrow> backend \<Rightarrow> 's \<Rightarrow> (go_error, string) result \<times> 's) \<Rightarrow> ('r \<Rightarrow> string \<Rightarrow> 's \<Rightarrow> go_error option \<times> 's)
    \<Rightarrow> ('a, 'r) request \<Rightarrow> 's \<Rightarrow> reply \<times> 's" where
  "serve_one add remove (AddRequest x b) s = (case add x b s of (res, s') \<Rightarrow> (AddReply res, s'))"
| "serve_one add remove (RemoveRequest y n) s = (case remove y n s of (err, s') \<Rightarrow> (RemoveReply err, s'))"

fun serve ::
  "('a \<Rightarrow> backend \<Rightarrow> 's \<Rightarrow> (go_error, string) result \<times> 's) \<Rightarrow> ('r \<Rightarrow> string \<Rightarrow> 's \<Rightarrow> go_error option \<times> 's)
    \<Rightarrow> ('a, 'r) request list \<Rightarrow> 's \<Rightarrow> reply list \<times> 's" where
  "serve add remove [] s = ([], s)"
| "serve add remove (req # reqs) s =
     (case serve_one add remove req s of
        (rep, s1) \<Rightarrow> (case serve add remove reqs s1 of (reps, s2) \<Rightarrow> (rep # reps, s2)))"

text \<open>The abstract registry a provider's lookups show: the names that are their own lookup
  names, with the address they resolve to.\<close>

definition registry_view ::
  "('s \<Rightarrow> string \<Rightarrow> (go_error, string) result) \<Rightarrow> 's \<Rightarrow> string \<rightharpoonup> string" where
  "registry_view address s k =
     (if backendLookupName k = k then (case address s k of Inr a \<Rightarrow> Some a | Inl e \<Rightarrow> None) else None)"

section \<open>The interface\<close>

locale backend_registry =
  fixes inv :: "'s \<Rightarrow> bool"
    and address :: "'s \<Rightarrow> string \<Rightarrow> (go_error, string) result"
    and add :: "'a \<Rightarrow> backend \<Rightarrow> 's \<Rightarrow> (go_error, string) result \<times> 's"
    and remove :: "'r \<Rightarrow> string \<Rightarrow> 's \<Rightarrow> go_error option \<times> 's"
  assumes inv_add: "inv s \<Longrightarrow> add x b s = (res, s') \<Longrightarrow> inv s'"
    and inv_remove: "inv s \<Longrightarrow> remove y n s = (err, s') \<Longrightarrow> inv s'"
    and address_key: "inv s \<Longrightarrow> address s (backendLookupName q) = address s q"
    and address_error: "address s q = Inl e \<Longrightarrow> e = Sentinel ErrBackendNotFound"
    and add_taken: "inv s \<Longrightarrow> add x b s = (Inr a, s') \<Longrightarrow> \<not> is_ok (address s (b_Name b))"
    and add_ok: "inv s \<Longrightarrow> add x b s = (Inr a, s') \<Longrightarrow>
          address s' q = (if backendLookupName q = backendLookupName (b_Name b) then Inr a else address s q)"
    and add_error: "inv s \<Longrightarrow> add x b s = (Inl e, s') \<Longrightarrow> address s' q = address s q"
    and remove_ok: "inv s \<Longrightarrow> remove y n s = (None, s') \<Longrightarrow> is_ok (address s n) \<and>
          address s' q = (if backendLookupName q = backendLookupName n
            then Inl (Sentinel ErrBackendNotFound) else address s q)"
    and remove_error: "inv s \<Longrightarrow> remove y n s = (Some e, s') \<Longrightarrow>
          address s' = address s \<or>
          is_ok (address s n) \<and>
            (\<forall>q. address s' q = (if backendLookupName q = backendLookupName n
               then Inl (Sentinel ErrBackendNotFound) else address s q))"
begin

text \<open>What a name resolves to, as an optional value.\<close>

definition registered :: "'s \<Rightarrow> string \<rightharpoonup> string" where
  "registered s k = (case address s k of Inr a \<Rightarrow> Some a | Inl e \<Rightarrow> None)"

text \<open>Looking a name up under its lookup name changes nothing.\<close>

lemma same_spelling:
  assumes "inv s" and "backendLookupName q = backendLookupName q'"
  shows "address s q = address s q'"
  using address_key [OF assms(1), of q] address_key [OF assms(1), of q'] assms(2) by simp

lemma registered_key: "inv s \<Longrightarrow> registered s (backendLookupName q) = registered s q"
  by (simp add: registered_def address_key)

lemma registered_ok: "registered s q \<noteq> None \<longleftrightarrow> is_ok (address s q)"
  by (simp add: registered_def is_ok_def split: sum.splits)

lemma spec_view_lookup: "inv s \<Longrightarrow> registry_view address s (backendLookupName q) = registered s q"
  by (simp add: registry_view_def registered_def address_key)

lemma spec_view_update:
  assumes "\<And>q. address s' q = (if backendLookupName q = backendLookupName n then v else address s q)"
  shows "registry_view address s' = (case v of Inr a \<Rightarrow> (registry_view address s)(backendLookupName n \<mapsto> a)
    | Inl e \<Rightarrow> map_remove (registry_view address s) (backendLookupName n))"
  using assms by (cases v) (auto simp: registry_view_def registered_def fun_eq_iff)

lemma spec_view_cong: "(\<And>q. address s' q = address s q) \<Longrightarrow> registry_view address s' = registry_view address s"
  by (simp add: registry_view_def registered_def fun_eq_iff)

text \<open>Every request is a step of the abstract registry.\<close>

lemma serve_one_refines:
  assumes "inv s" and "serve_one add remove req s = (rep, s')"
  shows "inv s' \<and> spec_step (registry_view address s) req rep (registry_view address s')"
proof (cases req)
  case (AddRequest x b)
  obtain res where r: "add x b s = (res, s')" "rep = AddReply res"
    using assms(2) AddRequest by (auto split: prod.splits)
  show ?thesis
  proof (cases res)
    case (Inl e)
    then have "registry_view address s' = registry_view address s" using add_error [OF assms(1)] r(1) by (intro spec_view_cong) simp
    with Inl r inv_add [OF assms(1)] AddRequest show ?thesis by (auto intro: spec_add_failed)
  next
    case (Inr a)
    have "registry_view address s' = (registry_view address s)(backendLookupName (b_Name b) \<mapsto> a)"
      using spec_view_update [of s' "b_Name b" "Inr a" s] add_ok [OF assms(1), of x b a s'] r(1) Inr by simp
    moreover have "registry_view address s (backendLookupName (b_Name b)) = None"
      using add_taken [OF assms(1), of x b a s'] r(1) Inr registered_ok [of s "b_Name b"]
      by (auto simp: spec_view_lookup [OF assms(1)])
    ultimately show ?thesis
      using Inr r inv_add [OF assms(1)] AddRequest by (auto intro: spec_added)
  qed
next
  case (RemoveRequest y n)
  obtain err where r: "remove y n s = (err, s')" "rep = RemoveReply err"
    using assms(2) RemoveRequest by (auto split: prod.splits)
  let ?gone = "is_ok (address s n) \<and> (\<forall>q. address s' q = (if backendLookupName q = backendLookupName n
      then Inl (Sentinel ErrBackendNotFound) else address s q))"
  have gone: "registry_view address s' = map_remove (registry_view address s) (backendLookupName n)
      \<and> registry_view address s (backendLookupName n) \<noteq> None" if ?gone
    using that spec_view_update [of s' n "Inl (Sentinel ErrBackendNotFound)" s] registered_ok [of s n]
    by (auto simp: spec_view_lookup [OF assms(1)])
  show ?thesis
  proof (cases err)
    case None
    with remove_ok [OF assms(1)] r(1) have ?gone by blast
    with gone None r inv_remove [OF assms(1)] RemoveRequest show ?thesis by (auto intro: spec_removed)
  next
    case (Some e)
    with remove_error [OF assms(1)] r(1) consider "address s' = address s" | ?gone by blast
    then show ?thesis
    proof cases
      case 1
      then have "registry_view address s' = registry_view address s" by (intro spec_view_cong) simp
      with Some r inv_remove [OF assms(1)] RemoveRequest show ?thesis by (auto intro: spec_remove_failed)
    next
      case 2
      with gone Some r inv_remove [OF assms(1)] RemoveRequest show ?thesis
        by (auto intro: spec_removed_unstopped)
    qed
  qed
qed

lemma serve_inv:
  "inv s \<Longrightarrow> serve add remove reqs s = (reps, s') \<Longrightarrow> inv s'"
proof (induction reqs arbitrary: s reps)
  case Nil
  then show ?case by simp
next
  case (Cons req reqs)
  then show ?case using serve_one_refines [of s req] by (fastforce split: prod.splits)
qed

text \<open>A name keeps its address, or keeps being unknown, over any requests for other names.\<close>

lemma serve_other:
  "inv s \<Longrightarrow> serve add remove reqs s = (reps, s') \<Longrightarrow>
   (\<forall>req \<in> set reqs. request_key req \<noteq> backendLookupName q) \<Longrightarrow> address s' q = address s q"
proof (induction reqs arbitrary: s reps)
  case Nil
  then show ?case by simp
next
  case (Cons req reqs)
  then obtain rep s1 reps' where 1: "serve_one add remove req s = (rep, s1)" "serve add remove reqs s1 = (reps', s')"
    by (auto split: prod.splits)
  note ref = serve_one_refines [OF Cons.prems(1) 1(1)]
  then have i: "inv s1" by simp
  have "registry_view address s1 (backendLookupName q) = registry_view address s (backendLookupName q)"
    using ref Cons.prems(3) by (intro spec_step_other [of _ req rep]) auto
  then have "registered s1 q = registered s q"
    by (simp add: spec_view_lookup [OF i] spec_view_lookup [OF Cons.prems(1)])
  then have "address s1 q = address s q"
    using address_error [of s q] address_error [of s1 q] by (auto simp: registered_def split: sum.splits)
  with Cons.IH [OF i 1(2)] Cons.prems(3) show ?case by simp
qed

text \<open>An added backend resolves to the address its add returned, under every spelling, until
  a request names it again.\<close>

lemma added_resolves:
  assumes "inv s" and "add x b s = (Inr a, s1)" and "serve add remove reqs s1 = (reps, s2)"
    and "\<forall>req \<in> set reqs. request_key req \<noteq> backendLookupName (b_Name b)"
    and "backendLookupName q = backendLookupName (b_Name b)"
  shows "address s2 q = Inr a"
  using serve_other [OF inv_add [OF assms(1,2)] assms(3), of q] assms(4,5) add_ok [OF assms(1,2), of q]
  by simp

end

end
