(* ===== verification/AddBackend.thy ===== *)
theory AddBackend
  imports RegistryProps RunLoop BackendRegistry
begin

text \<open>
  \<open>addBackend\<close> of \<^verbatim>\<open>subprocess.go\<close> as one handler: its sections composed in the order
  of the code, with the clean-up of every error return, for a call that no other
  operation interrupts (the interleavings are the subject of \<open>Interleaving\<close>). The
  subprocess runner is then shown to provide the interface of \<open>BackendRegistry\<close>.

  The answers of the outside during one call are an \<open>add_script\<close>. The polls are those made
  before the deadline that \<open>backendListenerReadyContext\<close> always sets: when they
  run out the wait has timed out.
\<close>

section \<open>The handler\<close>

record add_script =
  as_net :: net_env
  as_bs :: "nat \<Rightarrow> (string \<times> string) list"
  as_ps :: "nat \<Rightarrow> (string \<times> proc) list"
  as_temp :: temp_script
  as_start :: "go_error option"
  as_polls :: "poll list"
  as_verdict :: "bool option"
  as_stop :: stop_outcome

definition remove_config :: "string \<Rightarrow> 'a runner_scheme \<Rightarrow> 'a runner_scheme" where
  "remove_config path r = r\<lparr>files := files r - {path}\<rparr>"

definition wait_error :: "add_script \<Rightarrow> proc \<Rightarrow> go_error option" where
  "wait_error sc p =
     (let key = backendLookupName (p_name p);
          binds = describeBackendBinds [(key, p_addr p)] [p_addr p]
      in case waitBackendListenersProcess (p_name p) binds (as_polls sc) of
           None \<Rightarrow> Some (not_ready_error [p_name p, binds] None)
         | Some (_, err) \<Rightarrow> err)"

text \<open>From the wait for the listener to the end, the runtime having been started.\<close>

definition addBackend_finish ::
  "add_script \<Rightarrow> proc \<Rightarrow> 'a runner_scheme \<Rightarrow> (go_error, string) result \<times> 'a runner_scheme" where
  "addBackend_finish sc p r =
     (let name = p_name p; key = backendLookupName name; addr = p_addr p;
          release = releaseReservation key addr (p_release p);
          stop = (\<lambda>r. snd (stopSubprocessBackend (as_stop sc) p r))
      in case wait_error sc p of
           Some e \<Rightarrow>
             (let r1 = stop r;
                  r2 = unpend key p r1;
                  err = (if \<not> healthy r1 \<or> bin r1 = [] then Sentinel ErrNotStarted else e)
              in (Inl err, release r2))
         | None \<Rightarrow>
             if \<not> dynamicAddressOwned (Some p) (as_verdict sc) then
               (Inl (Wrapped (Sentinel ErrAddressNotOwned) [name, addr]), release (unpend key p (stop r)))
             else (case addBackend_publish name p r of
                     (True, r1) \<Rightarrow> (Inr addr, r1)
                   | (False, r1) \<Rightarrow> (Inl (Sentinel ErrNotStarted), release (stop r1))))"

text \<open>From the configuration to the start, the address having been reserved.\<close>

definition addBackend_launch ::
  "add_script \<Rightarrow> backend \<Rightarrow> string \<Rightarrow> release \<Rightarrow> 'a runner_scheme
    \<Rightarrow> (go_error, string) result \<times> 'a runner_scheme" where
  "addBackend_launch sc b addr rel r =
     (let name = b_Name b; key = backendLookupName name;
          release = releaseReservation key addr rel;
          binds = [name \<mapsto> addr, key \<mapsto> addr]
      in case nativeConfigJSONWithBackendBinds ((r_opts r)\<lparr>o_Backends := [b]\<rparr>) binds of
           Inl e \<Rightarrow> (Inl e, cleanupAdding key (release r))
         | Inr config \<Rightarrow>
             (case fst (writeTempConfig (as_temp sc) config Map.empty) of
                Inl e \<Rightarrow> (Inl e, cleanupAdding key (release r))
              | Inr path \<Rightarrow>
                  (case addBackend_start (as_start sc) name addr rel path
                          (r\<lparr>files := insert path (files r)\<rparr>) of
                     (Inl (True, e), r1) \<Rightarrow> (Inl e, remove_config path (release r1))
                   | (Inl (False, e), r1) \<Rightarrow>
                       (Inl e, remove_config path (cleanupAdding key (release r1)))
                   | (Inr p, r1) \<Rightarrow> addBackend_finish sc p r1)))"

definition addBackend ::
  "add_script \<Rightarrow> backend \<Rightarrow> 'a runner_scheme \<Rightarrow> (go_error, string) result \<times> 'a runner_scheme" where
  "addBackend sc b r =
     (let name = b_Name b; key = backendLookupName name in
      case addBackend_begin name r of
        Inl e \<Rightarrow> (Inl e, r)
      | Inr r1 \<Rightarrow>
          (case reserveDynamicAddressLocked (as_net sc) (as_bs sc) (as_ps sc) key (o_Bind (r_opts r1)) r1 of
             (Inl e, r2) \<Rightarrow> (Inl (Wrapped e [name]), cleanupAdding key r2)
           | (Inr (addr, rel), r2) \<Rightarrow> addBackend_launch sc b addr rel r2))"

section \<open>What a call leaves behind\<close>

text \<open>The part of the runner's state that a failed add must not change.\<close>

definition same_registry :: "'a runner_scheme \<Rightarrow> 'a runner_scheme \<Rightarrow> bool" where
  "same_registry r r' \<longleftrightarrow>
     backends r' = backends r \<and> dynamic r' = dynamic r \<and> pending r' = pending r \<and> adding r' = adding r
     \<and> healthy r' = healthy r \<and> bin r' = bin r \<and> r_opts r' = r_opts r"

lemma call_release_registry [simp]:
  "backends (call_release rel r) = backends r" "dynamic (call_release rel r) = dynamic r"
  "pending (call_release rel r) = pending r" "adding (call_release rel r) = adding r"
  "healthy (call_release rel r) = healthy r" "bin (call_release rel r) = bin r"
  "r_opts (call_release rel r) = r_opts r" "reserving (call_release rel r) = reserving r"
  "live (call_release rel r) = live r" "files (call_release rel r) = files r"
  "next_id (call_release rel r) = next_id r"
  by (simp_all add: call_release_def split: release.splits)

lemma section_opts [simp]:
  "r_opts (unpend k p r) = r_opts r" "r_opts (cleanupAdding k r) = r_opts r"
  by (simp_all add: unpend_def cleanupAdding_def)

lemma releaseReservation_more [simp]:
  "r_opts (releaseReservation k a rel r) = r_opts r" "next_id (releaseReservation k a rel r) = next_id r"
  by (simp_all add: releaseReservation_def Let_def)

lemma reserve_loop_registry:
  "reserve_loop env bs ps n key bnd la lo r = (res, r') \<Longrightarrow>
     same_registry r r' \<and> live r' = live r \<and> files r' = files r \<and> next_id r' = next_id r
     \<and> (case res of Inl e \<Rightarrow> reserving r' = reserving r
        | Inr (addr, rel) \<Rightarrow> reserving r' = (reserving r)(addr \<mapsto> key))"
proof (induction n arbitrary: r la lo)
  case 0
  then show ?case by (auto simp: same_registry_def)
next
  case (Suc n)
  obtain al t where al: "allocateBackendAddressLocked env (clock r) (o_ReserveHook (r_opts r)) bnd = (al, t)"
    by fastforce
  show ?case
  proof (cases al)
    case (Inl e)
    with Suc.prems al show ?thesis by (auto simp: same_registry_def)
  next
    case (Inr x)
    obtain addr rel where x: "x = (addr, rel)" by fastforce
    show ?thesis
    proof (cases "\<exists>owner. addressOwnerLocked (bs n) (ps n) (r\<lparr>clock := t\<rparr>) addr = Some owner \<and> owner \<noteq> key")
      case True
      with Suc.prems al Inr x
      have "reserve_loop env bs ps n key bnd addr (the (addressOwnerLocked (bs n) (ps n) (r\<lparr>clock := t\<rparr>) addr))
          (call_release rel (r\<lparr>clock := t\<rparr>)) = (res, r')" by auto
      from Suc.IH [OF this] show ?thesis
        by (cases res) (simp_all add: same_registry_def split: prod.splits)
    next
      case False
      with Suc.prems al Inr x show ?thesis
        by (auto simp: same_registry_def Let_def split: option.splits)
    qed
  qed
qed

lemmas reserve_registry =
  reserve_loop_registry [where n = 8 and la = "[]" and lo = "[]", folded reserveDynamicAddressLocked_def]

lemma stopSubprocessBackend_registry [simp]:
  "backends (snd (stopSubprocessBackend out p r)) = backends r"
  "dynamic (snd (stopSubprocessBackend out p r)) = dynamic r"
  "pending (snd (stopSubprocessBackend out p r)) = pending r"
  "adding (snd (stopSubprocessBackend out p r)) = adding r"
  "healthy (snd (stopSubprocessBackend out p r)) = healthy r"
  "bin (snd (stopSubprocessBackend out p r)) = bin r"
  "r_opts (snd (stopSubprocessBackend out p r)) = r_opts r"
  "reserving (snd (stopSubprocessBackend out p r)) = reserving r"
  "files (snd (stopSubprocessBackend out p r)) = files r - {p_configPath p}"
  "live (snd (stopSubprocessBackend out p r)) = (if stop_ends_process out then live r - {p_id p} else live r)"
  by (simp_all add: stopSubprocessBackend_def releaseAddress_def Let_def)

text \<open>How a call ends: refused, failed with the registry as it was, or published.\<close>

definition add_published :: "string \<Rightarrow> 'a runner_scheme \<Rightarrow> string \<Rightarrow> proc \<Rightarrow> 'a runner_scheme \<Rightarrow> bool" where
  "add_published name r addr p r' \<longleftrightarrow>
     p_name p = name \<and> p_addr p = addr \<and> p_id p = next_id r
     \<and> backends r' = storeBackendAddress (backends r) name addr
     \<and> dynamic r' = (dynamic r)(backendLookupName name \<mapsto> p)
     \<and> pending r' = pending r \<and> adding r' = adding r \<and> live r' = insert (p_id p) (live r)"

lemma finish_ends:
  assumes "addBackend_finish sc p r = (res, r')" and "pending r (backendLookupName (p_name p)) = Some p"
    and "healthy r" and "bin r \<noteq> []"
  shows "case res of
      Inl e \<Rightarrow> backends r' = backends r \<and> dynamic r' = dynamic r \<and> adding r' = adding r
        \<and> healthy r' = healthy r \<and> bin r' = bin r \<and> r_opts r' = r_opts r
        \<and> pending r' = map_remove (pending r) (backendLookupName (p_name p))
        \<and> reserving r' = (if reserving r (p_addr p) = Some (backendLookupName (p_name p))
             then map_remove (reserving r) (p_addr p) else reserving r)
        \<and> files r' = files r - {p_configPath p}
        \<and> live r' = (if stop_ends_process (as_stop sc) then live r - {p_id p} else live r)
    | Inr addr \<Rightarrow> addr = p_addr p \<and> backends r' = storeBackendAddress (backends r) (p_name p) addr
        \<and> dynamic r' = (dynamic r)(backendLookupName (p_name p) \<mapsto> p) \<and> adding r' = adding r
        \<and> pending r' = map_remove (pending r) (backendLookupName (p_name p))
        \<and> live r' = live r \<and> files r' = files r"
proof -
  have up: "pending (unpend (backendLookupName (p_name p)) p q) = map_remove (pending r) (backendLookupName (p_name p))"
    if "pending q = pending r" for q :: "'a runner_scheme"
    using that assms(2) by (simp add: unpend_def)
  show ?thesis
  proof (cases "wait_error sc p")
    case (Some e)
    with assms(1) show ?thesis
      by (auto simp: addBackend_finish_def Let_def up releaseReservation_reserving)
  next
    case None
    show ?thesis
    proof (cases "dynamicAddressOwned (Some p) (as_verdict sc)")
      case False
      with None assms(1) show ?thesis
        by (auto simp: addBackend_finish_def Let_def up releaseReservation_reserving)
    next
      case True
      with None assms show ?thesis
        by (auto simp: addBackend_finish_def addBackend_publish_def Let_def split: if_splits)
    qed
  qed
qed


lemma launch_ends:
  assumes l: "addBackend_launch sc b addr rel r = (res, r')"
    and r: "healthy r" "bin r \<noteq> []" "backendLookupName (b_Name b) \<notin> dom (pending r)"
      "reserving r addr = Some (backendLookupName (b_Name b))"
  shows "case res of
      Inl e \<Rightarrow> backends r' = backends r \<and> dynamic r' = dynamic r \<and> pending r' = pending r
        \<and> adding r' = adding r - {backendLookupName (b_Name b)}
        \<and> healthy r' = healthy r \<and> bin r' = bin r \<and> r_opts r' = r_opts r
        \<and> reserving r' = map_remove (reserving r) addr \<and> files r' \<subseteq> files r
        \<and> (stop_ends_process (as_stop sc) \<longrightarrow> live r' \<subseteq> live r)
    | Inr a \<Rightarrow> a = addr \<and> (\<exists>p. p_name p = b_Name b \<and> p_addr p = addr \<and> p_id p = next_id r
        \<and> backends r' = storeBackendAddress (backends r) (b_Name b) addr
        \<and> dynamic r' = (dynamic r)(backendLookupName (b_Name b) \<mapsto> p)
        \<and> pending r' = pending r \<and> adding r' = adding r - {backendLookupName (b_Name b)}
        \<and> live r' = insert (p_id p) (live r))"
proof -
  let ?k = "backendLookupName (b_Name b)"
  obtain config where c: "nativeConfigJSONWithBackendBinds ((r_opts r)\<lparr>o_Backends := [b]\<rparr>)
      [b_Name b \<mapsto> addr, ?k \<mapsto> addr] = Inr config"
    by (simp add: nativeConfigJSONWithBackendBinds_def)
  show ?thesis
  proof (cases "fst (writeTempConfig (as_temp sc) config Map.empty)")
    case (Inl e)
    with l c r show ?thesis
      by (cases res) (auto simp: addBackend_launch_def Let_def releaseReservation_reserving)
  next
    case (Inr path)
    let ?r = "r\<lparr>files := insert path (files r)\<rparr>"
    let ?p = "\<lparr>p_id = next_id r, p_name = b_Name b, p_addr = addr, p_configPath = path, p_release = rel\<rparr>"
    let ?s = "(cleanupAdding ?k ?r)\<lparr>next_id := Suc (next_id r), live := insert (next_id r) (live r),
        pending := (pending r)(?k \<mapsto> ?p)\<rparr>"
    show ?thesis
    proof (cases "as_start sc")
      case (Some e)
      with l c Inr r show ?thesis
        by (cases res) (auto simp: addBackend_launch_def addBackend_start_def remove_config_def Let_def
            releaseReservation_reserving)
    next
      case None
      with l c Inr r have "addBackend_finish sc ?p ?s = (res, r')"
        by (simp add: addBackend_launch_def addBackend_start_def Let_def cleanupAdding_def)
      from finish_ends [OF this] r show ?thesis
        by (cases res) (auto simp: map_remove_upd domIff intro!: exI [of _ ?p])
    qed
  qed
qed

lemma addBackend_ends:
  assumes "addBackend sc b r = (res, r')"
  shows "case res of
      Inl e \<Rightarrow> same_registry r r' \<and> reserving r' \<subseteq>\<^sub>m reserving r \<and> files r' \<subseteq> files r
        \<and> (stop_ends_process (as_stop sc) \<longrightarrow> live r' \<subseteq> live r)
    | Inr addr \<Rightarrow> backendLookupName (b_Name b) \<notin> dom (backends r)
        \<and> (\<exists>p. add_published (b_Name b) r addr p r')"
proof -
  let ?k = "backendLookupName (b_Name b)"
  show ?thesis
  proof (cases "addBackend_begin (b_Name b) r")
    case (Inl e)
    with assms show ?thesis by (auto simp: addBackend_def same_registry_def)
  next
    case (Inr r1)
    note beg = Inr [unfolded addBackend_begin_ok]
    obtain rv r2 where rv: "reserveDynamicAddressLocked (as_net sc) (as_bs sc) (as_ps sc) ?k (o_Bind (r_opts r1)) r1 = (rv, r2)"
      by fastforce
    note reg = reserve_registry [OF rv, unfolded same_registry_def]
    have ins: "insert ?k (adding r) - {?k} = adding r" using beg by auto
    show ?thesis
    proof (cases rv)
      case (Inl e)
      with assms Inr rv reg beg ins show ?thesis
        by (auto simp: addBackend_def same_registry_def Let_def)
    next
      case (Inr x)
      obtain addr rel where x: "x = (addr, rel)" by fastforce
      with assms Inr rv \<open>addBackend_begin (b_Name b) r = Inr r1\<close>
      have l: "addBackend_launch sc b addr rel r2 = (res, r')" by (simp add: addBackend_def Let_def)
      have "healthy r2" "bin r2 \<noteq> []" "?k \<notin> dom (pending r2)" "reserving r2 addr = Some ?k"
        using reg beg Inr x by auto
      from launch_ends [OF l this] reg beg Inr x ins show ?thesis
        by (cases res) (auto simp: same_registry_def add_published_def map_le_def)
    qed
  qed
qed

section \<open>The subprocess runner is a backend registry\<close>

text \<open>The invariant its laws need: names and their lookup names are published together, and
  a dynamic backend is published under exactly its two names.\<close>

definition sub_inv :: "runner \<Rightarrow> bool" where
  "sub_inv r \<longleftrightarrow> inv_alias (backends r) \<and> inv_dynamic (backends r) (dynamic r)"

lemma sub_inv_added:
  assumes "sub_inv r" and "backendLookupName n \<notin> dom (backends r)" and "add_published n r a p r'"
  shows "sub_inv r'"
proof -
  have "p_name p = n" "p_addr p = a" using assms(3) by (simp_all add: add_published_def)
  with assms publish_alias [of "backends r" n a] publish_dynamic [of "backends r" "dynamic r" p]
  show ?thesis by (simp add: sub_inv_def add_published_def)
qed

lemma sub_removed:
  assumes inv: "sub_inv r" and p: "dynamic r (backendLookupName n) = Some p"
  shows "sub_inv (unpublish (backendLookupName n) p r)"
    and "is_ok (backendAddress r n)"
    and "backendAddress (unpublish (backendLookupName n) p r) q = (if backendLookupName q = backendLookupName n
      then Inl (Sentinel ErrBackendNotFound) else backendAddress r q)"
proof -
  note ad = unpublish_alias_dynamic [OF inv [unfolded sub_inv_def, THEN conjunct1]
      inv [unfolded sub_inv_def, THEN conjunct2] p]
  note d = inv_dynamicD [OF inv [unfolded sub_inv_def, THEN conjunct2] p]
  show "sub_inv (unpublish (backendLookupName n) p r)" using ad by (simp add: sub_inv_def)
  show "is_ok (backendAddress r n)"
    using d(2) inv by (simp add: backendAddress_def lookup_alias sub_inv_def)
  show "backendAddress (unpublish (backendLookupName n) p r) q = (if backendLookupName q = backendLookupName n
      then Inl (Sentinel ErrBackendNotFound) else backendAddress r q)"
  proof (cases "backendLookupName q = p_name p")
    case True
    with d(1) have "backendLookupName q = backendLookupName n" by (metis backendLookupName_idem)
    with ad(1) d(1) show ?thesis by (simp add: backendAddress_def lookup_alias)
  next
    case False
    with ad(1) inv d(1) show ?thesis by (auto simp: backendAddress_def lookup_alias sub_inv_def)
  qed
qed

lemma sub_add_cases:
  assumes "sub_inv r" and "addBackend sc b r = (res, r')"
  shows "case res of
      Inl e \<Rightarrow> sub_inv r' \<and> (\<forall>q. backendAddress r' q = backendAddress r q)
    | Inr a \<Rightarrow> sub_inv r' \<and> \<not> is_ok (backendAddress r (b_Name b))
        \<and> (\<forall>q. backendAddress r' q = (if backendLookupName q = backendLookupName (b_Name b)
             then Inr a else backendAddress r q))"
proof (cases res)
  case (Inl e)
  with addBackend_ends [OF assms(2)] assms(1) show ?thesis
    by (auto simp: same_registry_def sub_inv_def backendAddress_def)
next
  case (Inr a)
  with addBackend_ends [OF assms(2)] obtain p where
    p: "backendLookupName (b_Name b) \<notin> dom (backends r)" "add_published (b_Name b) r a p r'" by auto
  from sub_inv_added [OF assms(1) p] have inv': "sub_inv r'" .
  have "backends r' (backendLookupName q) = (if backendLookupName q = backendLookupName (b_Name b)
      then Some a else backends r (backendLookupName q))" for q
    using p(2) store_other [of "backendLookupName q" "b_Name b" "backends r" a]
    by (metis (no_types, lifting) add_published_def backendLookupName_idem store_lookup(2) store_other_key)
  then show ?thesis
    using Inr inv' assms(1) p(1) by (auto simp: backendAddress_def lookup_alias sub_inv_def split: option.splits)
qed

lemma sub_remove_cases:
  assumes "sub_inv r" and "removeBackend out n r = (err, r')"
  shows "sub_inv r' \<and> (case dynamic r (backendLookupName n) of
      None \<Rightarrow> err \<noteq> None \<and> r' = r
    | Some p \<Rightarrow> is_ok (backendAddress r n) \<and> (\<forall>q. backendAddress r' q =
        (if backendLookupName q = backendLookupName n then Inl (Sentinel ErrBackendNotFound)
         else backendAddress r q)))"
proof (cases "dynamic r (backendLookupName n)")
  case None
  with assms show ?thesis
    by (auto simp: removeBackend_def removeBackend_begin_def Let_def split: sum.splits)
next
  case (Some p)
  with assms(2) have "r' = snd (stopSubprocessBackend out p (unpublish (backendLookupName n) p r))"
    by (simp add: removeBackend_def removeBackend_begin_def Let_def)
  then have "backends r' = backends (unpublish (backendLookupName n) p r)"
    "dynamic r' = dynamic (unpublish (backendLookupName n) p r)" by simp_all
  with sub_removed [OF assms(1) Some] Some show ?thesis
    by (auto simp: sub_inv_def backendAddress_def)
qed

interpretation sub: backend_registry sub_inv backendAddress addBackend removeBackend
proof
  fix r r' :: runner and x b res y n err q e a
  show "sub_inv r \<Longrightarrow> addBackend x b r = (res, r') \<Longrightarrow> sub_inv r'"
    using sub_add_cases [of r x b res r'] by (cases res) auto
  show "sub_inv r \<Longrightarrow> removeBackend y n r = (err, r') \<Longrightarrow> sub_inv r'"
    using sub_remove_cases by blast
  show "sub_inv r \<Longrightarrow> backendAddress r (backendLookupName q) = backendAddress r q"
    by (simp add: sub_inv_def backendAddress_def lookup_alias)
  show "backendAddress r q = Inl e \<Longrightarrow> e = Sentinel ErrBackendNotFound"
    by (auto simp: backendAddress_def lookup_address_def split: option.splits)
  show "sub_inv r \<Longrightarrow> addBackend x b r = (Inr a, r') \<Longrightarrow> \<not> is_ok (backendAddress r (b_Name b))"
    using sub_add_cases [of r x b "Inr a" r'] by simp
  show "sub_inv r \<Longrightarrow> addBackend x b r = (Inr a, r') \<Longrightarrow> backendAddress r' q =
      (if backendLookupName q = backendLookupName (b_Name b) then Inr a else backendAddress r q)"
    using sub_add_cases [of r x b "Inr a" r'] by simp
  show "sub_inv r \<Longrightarrow> addBackend x b r = (Inl e, r') \<Longrightarrow> backendAddress r' q = backendAddress r q"
    using sub_add_cases [of r x b "Inl e" r'] by simp
  show "sub_inv r \<Longrightarrow> removeBackend y n r = (None, r') \<Longrightarrow> is_ok (backendAddress r n) \<and> backendAddress r' q =
      (if backendLookupName q = backendLookupName n then Inl (Sentinel ErrBackendNotFound) else backendAddress r q)"
    using sub_remove_cases [of r y n None r'] by (auto split: option.splits)
  show "sub_inv r \<Longrightarrow> removeBackend y n r = (Some e, r') \<Longrightarrow> backendAddress r' = backendAddress r \<or>
      is_ok (backendAddress r n) \<and> (\<forall>q. backendAddress r' q = (if backendLookupName q = backendLookupName n
        then Inl (Sentinel ErrBackendNotFound) else backendAddress r q))"
    using sub_remove_cases [of r y n "Some e" r'] by (cases "dynamic r (backendLookupName n)") auto
qed


section \<open>The properties\<close>

definition demo_runner :: runner where
  "demo_runner = \<lparr>healthy = True, backends = Map.empty, bin = demo_bin, r_opts = demo_opts,
     dynamic = Map.empty, adding = {}, pending = Map.empty, reserving = Map.empty, live = {}, files = {},
     released = [], next_id = 0, clock = 0\<rparr>"

definition demo_adding :: "go_error option \<Rightarrow> add_script" where
  "demo_adding start_err = \<lparr>as_net = demo_env, as_bs = (\<lambda>_. []), as_ps = (\<lambda>_. []),
     as_temp = \<lparr>tf_create = Inr demo_cfg, tf_write = None, tf_close = None\<rparr>, as_start = start_err,
     as_polls = [ready_poll], as_verdict = Some True, as_stop = ExitedAfterSignal None\<rparr>"

definition demo_alpha :: backend where
  "demo_alpha = \<lparr>b_Name = demo_name, b_Address = ''10.0.0.1:25565'', b_Version = auto_version, b_Detect = True,
     b_Forwarding = ForwardingNone\<rparr>"

definition demo_after :: runner where
  "demo_after = snd (addBackend (demo_adding None) demo_alpha demo_runner)"

lemma demo_sub_inv: "sub_inv demo_runner"
  by (simp add: sub_inv_def demo_runner_def inv_alias_def inv_dynamic_def)

lemmas handler_defs =
  addBackend_def addBackend_launch_def addBackend_finish_def wait_error_def remove_config_def
  nativeConfigJSONWithBackendBinds_def writeTempConfig_def waitBackendListenersProcess_def section_defs

lemma demo_add_fails:
  "addBackend (demo_adding (Some (LibError ''fork''))) demo_alpha demo_runner
     = (Inl (LibError ''fork''), demo_runner\<lparr>clock := 1, released := [0]\<rparr>)"
  by (simp add: demo_runner_def demo_adding_def demo_alpha_def handler_defs numeral_eq_Suc)

lemma demo_add_succeeds:
  "addBackend (demo_adding None) demo_alpha demo_runner = (Inr demo_addr, demo_after)"
  unfolding demo_after_def
  by (simp add: demo_runner_def demo_adding_def demo_alpha_def handler_defs numeral_eq_Suc ready_poll_def
      allBackendsDialable_def)



text \<open>C4: The subprocess runner implements the abstract registry of lookup names and
  addresses: every add or remove request that it serves is a step of that registry, with the
  reply it gives (an address is entered once and under a free name, a removal takes out that
  name only, a failed request changes nothing unless the removed runtime could not be
  stopped).\<close>

theorem subprocess_refines_registry:
  fixes r :: runner
  assumes "inv_alias (backends r) \<and> inv_dynamic (backends r) (dynamic r)"
    and "serve_one addBackend removeBackend req r = (rep, r')"
  shows "spec_step (registry_view backendAddress r) req rep (registry_view backendAddress r')"
  using sub.serve_one_refines [of r req rep r'] assms by (simp add: sub_inv_def)

lemma subprocess_refines_registry_witness:
  "spec_step (registry_view backendAddress demo_runner) (AddRequest (demo_adding None) demo_alpha :: (add_script, stop_outcome) request)
     (AddReply (Inr demo_addr)) (registry_view backendAddress demo_after)"
  by (rule subprocess_refines_registry)
    (use demo_sub_inv in \<open>simp_all add: sub_inv_def demo_add_succeeds\<close>)

text \<open>The address an add of the subprocess runner returned is what every spelling of the
  name resolves to from then on, whatever other names are added and removed in the
  meantime.\<close>

lemma subprocess_added_resolves:
  fixes r :: runner
  assumes "inv_alias (backends r) \<and> inv_dynamic (backends r) (dynamic r)"
    and "addBackend sc b r = (Inr a, r1)" and "serve addBackend removeBackend reqs r1 = (reps, r2)"
    and "\<forall>req \<in> set reqs. request_key req \<noteq> backendLookupName (b_Name b)"
    and "backendLookupName q = backendLookupName (b_Name b)"
  shows "backendAddress r2 q = Inr a"
  using sub.added_resolves [OF _ assms(2-5)] assms(1) by (simp add: sub_inv_def)

lemma subprocess_added_resolves_witness: "backendAddress demo_after demo_key = Inr demo_addr"
proof (rule subprocess_added_resolves [OF _ demo_add_succeeds])
  show "serve addBackend removeBackend [] demo_after = ([], demo_after)" by simp
qed (use demo_sub_inv in \<open>simp_all add: sub_inv_def demo_alpha_def\<close>)

end
