(* ===== verification/Embedded.thy ===== *)
theory Embedded
  imports RunLoop BackendRegistry RegistrySteps
begin

text \<open>
  The embedded runner (\<^verbatim>\<open>embedded.go\<close>, \<^verbatim>\<open>embedded_helpers.go\<close>): the native library
  runs in the same process, its functions are called through \<^verbatim>\<open>nativeSymbols\<close>. What
  those functions answer is external and is an argument of the operations: exit codes are
  integers, an address is a string and the empty string a refusal. \<open>run\<close> is modelled in
  its two halves, up to the point where it reports readiness and after the native
  \<open>run\<close> has returned.
\<close>

section \<open>State and operations\<close>

text \<open>\<open>e_loaded\<close>: the fields \<open>symbols\<close> and \<open>thread\<close> are set. They are set and cleared
  together. A nil map of backends is the empty map.\<close>

record embedded =
  e_healthy :: bool
  e_backends :: "string \<rightharpoonup> string"
  e_loaded :: bool

definition e_backendAddress :: "embedded \<Rightarrow> string \<Rightarrow> (go_error, string) result" where
  "e_backendAddress r name =
     (case e_backends r name of
        Some a \<Rightarrow> Inr a
      | None \<Rightarrow> (case e_backends r (backendLookupName name) of
                  Some a \<Rightarrow> Inr a
                | None \<Rightarrow> Inl (Sentinel ErrBackendNotFound)))"

text \<open>What one call of \<open>addBackend\<close> meets: the error of its context, if that has ended,
  and the native function's answer to the configuration text.\<close>

record embedded_add =
  ea_ctx :: "go_error option"
  ea_native :: "string \<Rightarrow> string"

definition e_addBackend ::
  "embedded_add \<Rightarrow> backend \<Rightarrow> embedded \<Rightarrow> (go_error, string) result \<times> embedded" where
  "e_addBackend x b r =
     (case ea_ctx x of
        Some e \<Rightarrow> (Inl e, r)
      | None \<Rightarrow>
          (case nativeBackendConfigJSON b [] of
             Inl e \<Rightarrow> (Inl e, r)
           | Inr data \<Rightarrow>
               if \<not> e_loaded r \<or> \<not> e_healthy r then (Inl (Sentinel ErrNotStarted), r)
               else (let key = backendLookupName (b_Name b) in
                 if key \<in> dom (e_backends r) then (Inl (Sentinel ErrDuplicateBackend), r)
                 else (let addr = ea_native x data in
                   if addr = [] then (Inl (Sentinel ErrBackendNotFound), r)
                   else (Inr addr,
                     r\<lparr>e_backends := storeBackendAddress (e_backends r) (b_Name b) addr\<rparr>)))))"

record embedded_remove =
  er_ctx :: "go_error option"
  er_native :: "string \<Rightarrow> int"

text \<open>Every alias of the name is deleted.\<close>

definition delete_aliases :: "string \<Rightarrow> (string \<rightharpoonup> string) \<Rightarrow> (string \<rightharpoonup> string)" where
  "delete_aliases key m = (\<lambda>alias. if backendLookupName alias = key then None else m alias)"

definition e_removeBackend ::
  "embedded_remove \<Rightarrow> string \<Rightarrow> embedded \<Rightarrow> go_error option \<times> embedded" where
  "e_removeBackend y name r =
     (case er_ctx y of
        Some e \<Rightarrow> (Some e, r)
      | None \<Rightarrow>
          if \<not> e_loaded r \<or> \<not> e_healthy r then (Some (Sentinel ErrNotStarted), r)
          else (let key = backendLookupName name in
            if key \<notin> dom (e_backends r) then (Some (Sentinel ErrBackendNotFound), r)
            else if er_native y name \<noteq> 0 then (Some (Sentinel ErrBackendNotFound), r)
            else (None, r\<lparr>e_backends := delete_aliases key (e_backends r)\<rparr>)))"

section \<open>The run\<close>

text \<open>The native library's answers: locating and loading it, the exit codes of its calls,
  the address it gives each backend, and what its \<open>run\<close> returned.\<close>

record native_script =
  ns_locate :: "(go_error, string) result"
  ns_load :: "string \<Rightarrow> go_error option"
  ns_createIsolate :: int
  ns_init :: "string \<Rightarrow> int"
  ns_backendAddress :: "string \<Rightarrow> string"
  ns_run :: int

datatype native_event =
    NeCreate | NeInit string | NeMarkReady | NeRun | NeShutdown | NeTearDown

text \<open>The loop over the static backends: the map it has filled, and the error it stopped
  with, if any.\<close>

fun collect_addresses ::
  "(string \<Rightarrow> string) \<Rightarrow> backend list \<Rightarrow> (string \<rightharpoonup> string) \<Rightarrow> go_error option \<times> (string \<rightharpoonup> string)" where
  "collect_addresses f [] m = (None, m)"
| "collect_addresses f (b # bs) m =
     (let addr = f (b_Name b) in
      if addr = [] then (Some (Sentinel ErrBackendNotFound), m)
      else collect_addresses f bs (storeBackendAddress m (b_Name b) addr))"

text \<open>Up to readiness: the events, of which the deferred tear-down of the isolate is the
  last on an error return, the error with which \<open>run\<close> returns, if it does, and the state.\<close>

definition e_start ::
  "native_script \<Rightarrow> options \<Rightarrow> embedded \<Rightarrow> native_event list \<times> go_error option \<times> embedded" where
  "e_start ns opts r =
     (case ns_locate ns of
        Inl e \<Rightarrow> ([], Some e, r)
      | Inr lib \<Rightarrow>
          (case ns_load ns lib of
             Some e \<Rightarrow> ([], Some e, r)
           | None \<Rightarrow>
               if ns_createIsolate ns \<noteq> 0 then
                 ([NeCreate], Some (NativeExit ''create_isolate'' (ns_createIsolate ns)), r)
               else
                 (case nativeConfigJSON opts of
                    Inl e \<Rightarrow> ([NeCreate, NeTearDown], Some e, r)
                  | Inr config \<Rightarrow>
                      if ns_init ns config \<noteq> 0 then
                        ([NeCreate, NeInit config, NeTearDown],
                         Some (NativeExit ''init'' (ns_init ns config)), r)
                      else
                        (case collect_addresses (ns_backendAddress ns) (o_Backends opts) Map.empty of
                           (Some e, m) \<Rightarrow>
                             ([NeCreate, NeInit config, NeTearDown], Some e, r\<lparr>e_backends := m\<rparr>)
                         | (None, m) \<Rightarrow>
                             ([NeCreate, NeInit config, NeMarkReady], None,
                              r\<lparr>e_backends := m, e_loaded := True, e_healthy := True\<rparr>)))))"

text \<open>The rest of \<open>run\<close>: the native \<open>run\<close> returns, by itself or after the shutdown that
  the end of the context asks for, and the deferred functions run.\<close>

definition run_result :: "int \<Rightarrow> go_error option" where
  "run_result code = (if code \<noteq> 0 then Some (NativeExit ''run'' code) else None)"

definition e_finish ::
  "native_script \<Rightarrow> bool \<Rightarrow> embedded \<Rightarrow> native_event list \<times> go_error option \<times> embedded" where
  "e_finish ns cancelled r =
     ([NeRun] @ (if cancelled then [NeShutdown] else []) @ [NeTearDown],
      run_result (ns_run ns),
      r\<lparr>e_loaded := False, e_backends := Map.empty, e_healthy := False\<rparr>)"

section \<open>The embedded runner is a backend registry\<close>

definition emb_inv :: "embedded \<Rightarrow> bool" where
  "emb_inv r \<longleftrightarrow> inv_alias (e_backends r)"

lemma e_address_lookup: "e_backendAddress r q = lookup_address (e_backends r) q"
  by (simp add: e_backendAddress_def lookup_address_def)


lemma e_address_alias:
  "emb_inv r \<Longrightarrow> e_backendAddress r q = (case e_backends r (backendLookupName q) of
     Some a \<Rightarrow> Inr a | None \<Rightarrow> Inl (Sentinel ErrBackendNotFound))"
  by (simp add: e_address_lookup emb_inv_def lookup_alias)

lemma delete_aliases_alias: "inv_alias m \<Longrightarrow> inv_alias (delete_aliases key m)"
  by (simp add: inv_alias_def delete_aliases_def)

lemma emb_add_cases:
  assumes "emb_inv r" and "e_addBackend x b r = (res, r')"
  shows "(case res of
      Inl e \<Rightarrow> r' = r
    | Inr a \<Rightarrow> emb_inv r' \<and> \<not> is_ok (e_backendAddress r (b_Name b))
        \<and> (\<forall>q. e_backendAddress r' q = (if backendLookupName q = backendLookupName (b_Name b)
             then Inr a else e_backendAddress r q)))"
proof (cases res)
  case (Inl e)
  with assms(2) show ?thesis
    by (auto simp: e_addBackend_def Let_def split: option.splits sum.splits if_splits)
next
  case (Inr a)
  with assms(2) have free: "backendLookupName (b_Name b) \<notin> dom (e_backends r)"
      and r': "r' = r\<lparr>e_backends := storeBackendAddress (e_backends r) (b_Name b) a\<rparr>"
    by (auto simp: e_addBackend_def Let_def split: option.splits sum.splits if_splits)
  have inv': "emb_inv r'"
    using publish_alias [OF assms(1) [unfolded emb_inv_def] free] by (simp add: emb_inv_def r')
  have "e_backends r' (backendLookupName q) = (if backendLookupName q = backendLookupName (b_Name b)
      then Some a else e_backends r (backendLookupName q))" for q
    using store_other_key [of "backendLookupName q" "b_Name b" "e_backends r" a] by (simp add: r')
  with Inr inv' free assms(1) show ?thesis by (auto simp: e_address_alias split: option.splits)
qed

lemma emb_remove_cases:
  assumes "emb_inv r" and "e_removeBackend y n r = (err, r')"
  shows "if err = None then emb_inv r' \<and> is_ok (e_backendAddress r n)
      \<and> (\<forall>q. e_backendAddress r' q = (if backendLookupName q = backendLookupName n
           then Inl (Sentinel ErrBackendNotFound) else e_backendAddress r q))
    else r' = r"
proof (cases err)
  case (Some e)
  with assms(2) show ?thesis
    by (auto simp: e_removeBackend_def Let_def split: option.splits if_splits)
next
  case None
  with assms(2) have key: "backendLookupName n \<in> dom (e_backends r)"
      and r': "r' = r\<lparr>e_backends := delete_aliases (backendLookupName n) (e_backends r)\<rparr>"
    by (auto simp: e_removeBackend_def Let_def split: option.splits if_splits)
  have "emb_inv r'" using assms(1) by (simp add: emb_inv_def r' delete_aliases_alias)
  moreover have "e_backends r' (backendLookupName q) = (if backendLookupName q = backendLookupName n
      then None else e_backends r (backendLookupName q))" for q by (simp add: r' delete_aliases_def)
  ultimately show ?thesis using None key assms(1) by (auto simp: e_address_alias)
qed

interpretation emb: backend_registry emb_inv e_backendAddress e_addBackend e_removeBackend
proof
  fix r r' :: embedded and x b res y n err q e a
  show "emb_inv r \<Longrightarrow> e_addBackend x b r = (res, r') \<Longrightarrow> emb_inv r'"
    using emb_add_cases [of r x b res r'] by (cases res) auto
  show "emb_inv r \<Longrightarrow> e_removeBackend y n r = (err, r') \<Longrightarrow> emb_inv r'"
    using emb_remove_cases [of r y n err r'] by (auto split: if_splits)
  show "emb_inv r \<Longrightarrow> e_backendAddress r (backendLookupName q) = e_backendAddress r q"
    by (simp add: e_address_alias)
  show "e_backendAddress r q = Inl e \<Longrightarrow> e = Sentinel ErrBackendNotFound"
    by (auto simp: e_backendAddress_def split: option.splits)
  show "emb_inv r \<Longrightarrow> e_addBackend x b r = (Inr a, r') \<Longrightarrow> \<not> is_ok (e_backendAddress r (b_Name b))"
    using emb_add_cases [of r x b "Inr a" r'] by simp
  show "emb_inv r \<Longrightarrow> e_addBackend x b r = (Inr a, r') \<Longrightarrow> e_backendAddress r' q =
      (if backendLookupName q = backendLookupName (b_Name b) then Inr a else e_backendAddress r q)"
    using emb_add_cases [of r x b "Inr a" r'] by simp
  show "emb_inv r \<Longrightarrow> e_addBackend x b r = (Inl e, r') \<Longrightarrow> e_backendAddress r' q = e_backendAddress r q"
    using emb_add_cases [of r x b "Inl e" r'] by simp
  show "emb_inv r \<Longrightarrow> e_removeBackend y n r = (None, r') \<Longrightarrow> is_ok (e_backendAddress r n) \<and>
      e_backendAddress r' q = (if backendLookupName q = backendLookupName n
        then Inl (Sentinel ErrBackendNotFound) else e_backendAddress r q)"
    using emb_remove_cases [of r y n None r'] by auto
  show "emb_inv r \<Longrightarrow> e_removeBackend y n r = (Some e, r') \<Longrightarrow> e_backendAddress r' = e_backendAddress r \<or>
      is_ok (e_backendAddress r n) \<and> (\<forall>q. e_backendAddress r' q = (if backendLookupName q = backendLookupName n
        then Inl (Sentinel ErrBackendNotFound) else e_backendAddress r q))"
    using emb_remove_cases [of r y n "Some e" r'] by simp
qed

section \<open>The run up to readiness\<close>

lemma collect_addresses_ok:
  "collect_addresses f bs m = (None, m') \<Longrightarrow>
     m' = store_all bs (map (\<lambda>b. f (b_Name b)) bs) m \<and> (\<forall>b \<in> set bs. f (b_Name b) \<noteq> [])"
  by (induction bs arbitrary: m) (auto simp: Let_def split: if_splits)

lemma store_all_inv_alias:
  assumes "length as = length bs" and "distinct (lookup_names bs)"
  shows "inv_alias (store_all bs as Map.empty)"
  unfolding inv_alias_def
proof (intro allI impI)
  fix n a assume n: "store_all bs as Map.empty n = Some a"
  then have "n \<in> dom (store_all bs as Map.empty)" by blast
  then have "n \<in> b_Name ` set bs \<or> n \<in> set (lookup_names bs)"
    unfolding dom_store_all [OF assms(1)] by simp
  then obtain j where j: "j < length bs" "backendLookupName n = backendLookupName (b_Name (bs ! j))"
    by (auto simp: lookup_names_def in_set_conv_nth)
  with store_all_class [OF assms j] n have "a = as ! j" by simp
  with store_all_lookup [OF assms j(1), of "backendLookupName n"] j(2)
  show "store_all bs as Map.empty (backendLookupName n) = Some a" by simp
qed

text \<open>When the embedded runner reports readiness it is healthy, and every configured
  backend resolves, under every spelling of its name, to the non-empty address the native
  library gave for it; when it fails before that it has undone the isolate it created and
  is not healthy.\<close>

lemma embedded_start:
  assumes "wf_options opts" and "e_start ns opts r = (evs, err, r')" and "\<not> e_healthy r"
  shows "if err = None
    then e_healthy r' \<and> last evs = NeMarkReady
      \<and> (\<forall>b q. b \<in> set (o_Backends opts) \<longrightarrow> backendLookupName q = backendLookupName (b_Name b) \<longrightarrow>
            ns_backendAddress ns (b_Name b) \<noteq> [] \<and> e_backendAddress r' q = Inr (ns_backendAddress ns (b_Name b)))
    else \<not> e_healthy r' \<and> NeMarkReady \<notin> set evs
      \<and> (NeCreate \<in> set evs \<and> ns_createIsolate ns = 0 \<longrightarrow> last evs = NeTearDown)"
proof (cases err)
  case (Some e)
  with assms(2,3) show ?thesis
    by (auto simp: e_start_def nativeConfigJSON_def nativeConfigJSONWithBackendBinds_def
        split: sum.splits option.splits if_splits prod.splits)
next
  case None
  let ?bs = "o_Backends opts" and ?f = "ns_backendAddress ns"
  from None assms(2) obtain m where m: "collect_addresses ?f ?bs Map.empty = (None, m)"
      "e_healthy r'" "e_backends r' = m" "last evs = NeMarkReady"
    by (auto simp: e_start_def nativeConfigJSON_def nativeConfigJSONWithBackendBinds_def
        split: sum.splits option.splits if_splits prod.splits)
  from collect_addresses_ok [OF m(1)] have
    c: "m = store_all ?bs (map (\<lambda>b. ?f (b_Name b)) ?bs) Map.empty" "\<forall>b \<in> set ?bs. ?f (b_Name b) \<noteq> []" by auto
  have d: "distinct (lookup_names ?bs)" using assms(1) by (simp add: wf_options_def)
  have "e_backendAddress r' q = Inr (?f (b_Name b))"
    if "b \<in> set ?bs" "backendLookupName q = backendLookupName (b_Name b)" for b q
  proof -
    from that(1) obtain j where "j < length ?bs" "b = ?bs ! j" by (auto simp: in_set_conv_nth)
    with lookup_store_all [OF _ d, of "map (\<lambda>b. ?f (b_Name b)) ?bs" j q] that(2) show ?thesis
      by (simp add: e_address_lookup m(3) c(1))
  qed
  with None m c(2) show ?thesis by auto
qed


definition demo_native :: native_script where
  "demo_native = \<lparr>ns_locate = Inr ''libvialite.so'', ns_load = (\<lambda>lib. None), ns_createIsolate = 0,
     ns_init = (\<lambda>config. 0), ns_backendAddress = (\<lambda>name. demo_listener), ns_run = 0\<rparr>"

definition demo_embedded_opts :: options where
  "demo_embedded_opts = demo_run_opts\<lparr>o_Mode := ModeEmbedded, o_RestartPolicy := Some demo_policy\<rparr>"

definition demo_unstarted :: embedded where
  "demo_unstarted = \<lparr>e_healthy = False, e_backends = Map.empty, e_loaded = False\<rparr>"

definition demo_started :: embedded where
  "demo_started = \<lparr>e_healthy = True, e_backends = storeBackendAddress Map.empty ''lobby'' demo_listener,
     e_loaded = True\<rparr>"

lemma demo_listener_nonempty [simp]: "demo_listener \<noteq> []"
  by (simp add: demo_listener_def)

lemma demo_embedded_wf: "wf_options demo_embedded_opts"
  using demo_wf by (simp add: wf_options_def demo_embedded_opts_def)

lemma demo_embedded_start:
  "e_start demo_native demo_embedded_opts demo_unstarted =
     ([NeCreate, NeInit (marshal_config (native_config_of demo_embedded_opts Map.empty)), NeMarkReady],
      None, demo_started)"
  by (simp add: e_start_def demo_native_def demo_embedded_opts_def demo_run_opts_def demo_backend_def
      demo_unstarted_def demo_started_def nativeConfigJSON_def nativeConfigJSONWithBackendBinds_def)

lemma embedded_start_witness:
  "e_healthy demo_started \<and> e_backendAddress demo_started ''LOBBY'' = Inr demo_listener"
proof -
  have b: "demo_backend \<in> set (o_Backends demo_embedded_opts)"
    by (simp add: demo_embedded_opts_def demo_run_opts_def)
  have q: "backendLookupName ''LOBBY'' = backendLookupName (b_Name demo_backend)" by code_simp
  have n: "ns_backendAddress demo_native n = demo_listener" for n by (simp add: demo_native_def)
  have u: "\<not> e_healthy demo_unstarted" by (simp add: demo_unstarted_def)
  show ?thesis
    using embedded_start [OF demo_embedded_wf demo_embedded_start u] b q unfolding n by (simp only: if_True simp_thms)
qed

text \<open>C7: The embedded runner implements the abstract registry as well, for its static and its
  added backends alike: whatever the native library answers, every add or remove request is
  a step of the map from lookup names to addresses, with the reply given.\<close>

theorem embedded_refines_registry:
  assumes "inv_alias (e_backends r)" and "serve_one e_addBackend e_removeBackend req r = (rep, r')"
  shows "spec_step (registry_view e_backendAddress r) req rep (registry_view e_backendAddress r')
    \<and> inv_alias (e_backends r')"
  using emb.serve_one_refines [of r req rep r'] assms by (simp add: emb_inv_def)

definition demo_remove :: embedded_remove where
  "demo_remove = \<lparr>er_ctx = None, er_native = (\<lambda>name. 0)\<rparr>"

lemma embedded_refines_registry_witness:
  "spec_step (registry_view e_backendAddress demo_started)
     (RemoveRequest demo_remove ''lobby'' :: (embedded_add, embedded_remove) request) (RemoveReply None)
     (registry_view e_backendAddress (snd (e_removeBackend demo_remove ''lobby'' demo_started)))"
proof -
  have k: "backendLookupName ''lobby'' = ''lobby''" by code_simp
  have "inv_alias (e_backends demo_started)"
    by (auto simp: demo_started_def inv_alias_def storeBackendAddress_def k split: if_splits)
  moreover have "serve_one e_addBackend e_removeBackend (RemoveRequest demo_remove ''lobby'' :: (embedded_add, embedded_remove) request) demo_started
      = (RemoveReply None, snd (e_removeBackend demo_remove ''lobby'' demo_started))"
    by (simp add: e_removeBackend_def demo_remove_def demo_started_def k Let_def)
  ultimately show ?thesis using embedded_refines_registry by blast
qed

end
