(* ===== verification/Server.thy ===== *)
theory Server
  imports BackendRegistry
begin

text \<open>
  The server (\<^verbatim>\<open>server.go\<close>). The first part is its facade: \<open>New\<close>,
  \<open>Healthy\<close>, \<open>BackendDialAddress\<close>, \<open>AddBackend\<close>, \<open>RemoveBackend\<close>, which look at
  the flags \<open>started\<close> and \<open>ready\<close> and call the runner, here over any provider of
  the interface of \<open>BackendRegistry\<close>. The second part is its life cycle under
  concurrency: calls of \<open>Start\<close>, \<open>Stop\<close> and \<open>WaitReady\<close> are threads, a step is one
  critical section or one access to an atomic field. The channels \<open>done\<close> and
  \<open>readyCh\<close> and the function \<open>cancel\<close> are made afresh by every \<open>Start\<close>; they are
  identified by the number of that \<open>Start\<close>, 0 standing for nil.
\<close>

section \<open>The facade\<close>

datatype runner_kind = EmbeddedRunner | SubprocessRunner

definition server_New :: "options \<Rightarrow> (go_error, options \<times> runner_kind) result" where
  "server_New opts =
     (case validate opts of
        (validated, Some e) \<Rightarrow> Inl e
      | (validated, None) \<Rightarrow>
          if o_Mode validated = ModeEmbedded then Inr (validated, EmbeddedRunner)
          else if o_Mode validated = ModeSubprocess then Inr (validated, SubprocessRunner)
          else Inl (Sentinel ErrInvalidMode))"

text \<open>The facade's view of a server: its two flags and its runner.\<close>

record 'r facade =
  f_started :: bool
  f_ready :: bool
  f_runner :: 'r

definition Healthy :: "('r \<Rightarrow> bool) \<Rightarrow> 'r facade option \<Rightarrow> bool" where
  "Healthy healthy so =
     (case so of None \<Rightarrow> False
      | Some s \<Rightarrow> if \<not> f_started s \<or> \<not> f_ready s then False else healthy (f_runner s))"

text \<open>The guard of the three operations on backends.\<close>

definition not_serving :: "'r facade option \<Rightarrow> go_error option" where
  "not_serving so =
     (case so of None \<Rightarrow> Some (Sentinel ErrNotStarted)
      | Some s \<Rightarrow> if \<not> f_started s then Some (Sentinel ErrNotStarted)
                  else if \<not> f_ready s then Some (Sentinel ErrNotReady) else None)"

definition is_not_found :: "(go_error, string) result \<Rightarrow> bool" where
  "is_not_found res = (case res of Inl e \<Rightarrow> errors_is e ErrBackendNotFound | Inr _ \<Rightarrow> False)"

definition BackendDialAddress ::
  "('r \<Rightarrow> string \<Rightarrow> (go_error, string) result) \<Rightarrow> 'r facade option \<Rightarrow> string \<Rightarrow> (go_error, string) result" where
  "BackendDialAddress address so name =
     (case not_serving so of
        Some e \<Rightarrow> Inl e
      | None \<Rightarrow>
          (let r = f_runner (the so);
               res = address r name;
               normalized = backendLookupName name
           in if is_not_found res \<and> normalized \<noteq> name then address r normalized else res))"

definition AddBackend ::
  "('a \<Rightarrow> backend \<Rightarrow> 'r \<Rightarrow> (go_error, string) result \<times> 'r) \<Rightarrow> 'a \<Rightarrow> backend \<Rightarrow> 'r facade option
    \<Rightarrow> (go_error, string) result \<times> 'r facade option" where
  "AddBackend add x b so =
     (case not_serving so of
        Some e \<Rightarrow> (Inl e, so)
      | None \<Rightarrow>
          (case normalizeBackend b of
             (_, Some e) \<Rightarrow> (Inl e, so)
           | (nb, None) \<Rightarrow>
               (case add x nb (f_runner (the so)) of
                  (res, r) \<Rightarrow> (res, Some ((the so)\<lparr>f_runner := r\<rparr>)))))"

definition RemoveBackend ::
  "('y \<Rightarrow> string \<Rightarrow> 'r \<Rightarrow> go_error option \<times> 'r) \<Rightarrow> 'y \<Rightarrow> string \<Rightarrow> 'r facade option
    \<Rightarrow> go_error option \<times> 'r facade option" where
  "RemoveBackend remove y name so =
     (case not_serving so of
        Some e \<Rightarrow> (Some e, so)
      | None \<Rightarrow> (case remove y name (f_runner (the so)) of
                  (err, r) \<Rightarrow> (err, Some ((the so)\<lparr>f_runner := r\<rparr>))))"

lemma not_serving_None: "not_serving so = None \<longleftrightarrow> (\<exists>s. so = Some s \<and> f_started s \<and> f_ready s)"
  by (auto simp: not_serving_def split: option.splits)

text \<open>What the facade gives on top of any provider of the interface.\<close>

context backend_registry
begin

text \<open>The second lookup of \<open>BackendDialAddress\<close>, under the normalised name, cannot change
  the answer.\<close>

lemma dial_is_lookup:
  assumes "not_serving so = None" and "inv (f_runner (the so))"
  shows "BackendDialAddress address so name = address (f_runner (the so)) name"
  using assms address_key [OF assms(2), of name] by (simp add: BackendDialAddress_def Let_def)

text \<open>An address that \<open>AddBackend\<close> returned can be dialled under every spelling of the
  name that was passed, and a removed name cannot be dialled.\<close>

lemma add_then_dial:
  assumes "inv (f_runner (the so))" and "AddBackend add x b so = (Inr a, so')"
    and "backendLookupName q = backendLookupName (b_Name b)"
  shows "BackendDialAddress address so' q = Inr a"
proof -
  from assms(2) have serving: "not_serving so = None"
    by (auto simp: AddBackend_def split: option.splits)
  then obtain s where s: "so = Some s" "f_started s" "f_ready s" by (auto simp: not_serving_None)
  from assms(2) serving obtain nb r where n: "normalizeBackend b = (nb, None)"
      "add x nb (f_runner s) = (Inr a, r)" "so' = Some (s\<lparr>f_runner := r\<rparr>)"
    by (auto simp: AddBackend_def s(1) split: prod.splits option.splits)
  have inv: "inv (f_runner s)" using assms(1) s(1) by simp
  have "backendLookupName q = backendLookupName (b_Name nb)"
    using normalizeBackend_name [OF n(1)] assms(3) by simp
  with add_ok [OF inv n(2), of q] have "address r q = Inr a" by simp
  moreover have "not_serving so' = None" using s n(3) by (auto simp: not_serving_None)
  ultimately show ?thesis
    using dial_is_lookup [of so' q] inv_add [OF inv n(2)] n(3) by simp
qed

lemma add_keeps_inv:
  assumes "inv (f_runner (the so))" and "AddBackend add x b so = (res, so')"
  shows "inv (f_runner (the so'))"
proof (cases "not_serving so")
  case (Some e)
  with assms show ?thesis by (simp add: AddBackend_def)
next
  case None
  obtain nb err where n: "normalizeBackend b = (nb, err)" by fastforce
  obtain r' r where "add x nb (f_runner (the so)) = (r', r)" by fastforce
  with assms None n inv_add [OF assms(1)] show ?thesis
    by (cases err) (auto simp: AddBackend_def)
qed

lemma remove_then_dial:
  assumes "inv (f_runner (the so))" and "RemoveBackend remove y n so = (None, so')"
    and "backendLookupName q = backendLookupName n"
  shows "BackendDialAddress address so' q = Inl (Sentinel ErrBackendNotFound)"
proof -
  from assms(2) have serving: "not_serving so = None"
    by (auto simp: RemoveBackend_def split: option.splits)
  then obtain s where s: "so = Some s" "f_started s" "f_ready s" by (auto simp: not_serving_None)
  from assms(2) serving obtain r where r: "remove y n (f_runner s) = (None, r)" "so' = Some (s\<lparr>f_runner := r\<rparr>)"
    by (auto simp: RemoveBackend_def s(1) split: prod.splits)
  have inv: "inv (f_runner s)" using assms(1) s(1) by simp
  have "address r q = Inl (Sentinel ErrBackendNotFound)" using remove_ok [OF inv r(1)] assms(3) by simp
  moreover have "not_serving so' = None" using s r(2) by (auto simp: not_serving_None)
  ultimately show ?thesis
    using dial_is_lookup [of so' q] inv_remove [OF inv r(1)] r(2) by simp
qed

text \<open>Both together.\<close>

lemma add_dial_remove:
  assumes "inv (f_runner (the so))" and "AddBackend add x b so = (Inr a, so')"
    and "backendLookupName q = backendLookupName (b_Name b)"
    and "backendLookupName n = backendLookupName (b_Name b)"
  shows "BackendDialAddress address so' q = Inr a
    \<and> (\<forall>y so''. RemoveBackend remove y n so' = (None, so'') \<longrightarrow>
         BackendDialAddress address so'' q = Inl (Sentinel ErrBackendNotFound))"
  using add_then_dial [OF assms(1-3)] remove_then_dial [OF add_keeps_inv [OF assms(1,2)]] assms(3,4)
  by auto

end

section \<open>The life cycle\<close>

record control =
  started :: bool
  ready :: bool
  current :: nat
  readyClosed :: bool
  readyErr :: "go_error option"
  runErr :: "go_error option option"
  ready_closed :: "nat set"
  done_closed :: "nat set"
  cancelled :: "nat set"

text \<open>\<open>markReady\<close>: only the first call of a generation counts.\<close>

definition markReady :: "go_error option \<Rightarrow> 'a control_scheme \<Rightarrow> 'a control_scheme" where
  "markReady err s =
     (if current s = 0 \<or> readyClosed s then s
      else s\<lparr>readyErr := err, ready := (ready s \<or> err = None),
             ready_closed := insert (current s) (ready_closed s), readyClosed := True\<rparr>)"

text \<open>A thread in \<open>Start\<close>: running the runner, then the four things it does after the
  runner has returned \<open>err\<close>, in order, and the two deferred calls.\<close>

datatype start_phase =
    SRun nat
  | SStoreErr nat "go_error option"
  | SClearStarted nat "go_error option"
  | SClearReady nat "go_error option"
  | SCancel nat "go_error option"
  | SClose nat "go_error option"
  | SDone "go_error option"

text \<open>A thread in \<open>WaitReady\<close>: before the look at the channel, blocked on the channel of a
  generation, or returned. A thread in \<open>Stop\<close>: waiting for a generation to be done, or
  returned.\<close>

datatype wait_phase = WLook | WBlocked nat | WDone "go_error option"
datatype stop_phase = TWait nat | TDone "go_error option"

record life = control +
  starts_of :: "nat \<rightharpoonup> start_phase"
  waits_of :: "nat \<rightharpoonup> wait_phase"
  stops_of :: "nat \<rightharpoonup> stop_phase"

datatype life_label =
    VStart nat
  | VMarkReady nat
  | VReturn nat "go_error option"
  | VNext nat
  | VWait nat
  | VLook nat
  | VWake nat
  | VWaitCtx nat go_error
  | VStop nat
  | VStopWake nat
  | VStopCtx nat go_error

definition set_start :: "nat \<Rightarrow> start_phase \<Rightarrow> life \<Rightarrow> life" where
  "set_start t ph s = s\<lparr>starts_of := (starts_of s)(t \<mapsto> ph)\<rparr>"

definition set_wait :: "nat \<Rightarrow> wait_phase \<Rightarrow> life \<Rightarrow> life" where
  "set_wait t ph s = s\<lparr>waits_of := (waits_of s)(t \<mapsto> ph)\<rparr>"

definition set_stop :: "nat \<Rightarrow> stop_phase \<Rightarrow> life \<Rightarrow> life" where
  "set_stop t ph s = s\<lparr>stops_of := (stops_of s)(t \<mapsto> ph)\<rparr>"

text \<open>The locked section of \<open>Start\<close>.\<close>

definition begin_start :: "life \<Rightarrow> life" where
  "begin_start s =
     s\<lparr>started := True, ready := False, runErr := None, current := Suc (current s),
       readyClosed := False, readyErr := None\<rparr>"

fun after_run :: "nat \<Rightarrow> start_phase \<Rightarrow> life \<Rightarrow> life option" where
  "after_run t (SStoreErr g err) s = Some (set_start t (SClearStarted g err) (s\<lparr>runErr := Some err\<rparr>))"
| "after_run t (SClearStarted g err) s = Some (set_start t (SClearReady g err) (s\<lparr>started := False\<rparr>))"
| "after_run t (SClearReady g err) s = Some (set_start t (SCancel g err) (s\<lparr>ready := False\<rparr>))"
| "after_run t (SCancel g err) s =
     Some (set_start t (SClose g err) (s\<lparr>cancelled := insert g (cancelled s)\<rparr>))"
| "after_run t (SClose g err) s =
     Some (set_start t (SDone err) (s\<lparr>done_closed := insert g (done_closed s)\<rparr>))"
| "after_run t _ s = None"

text \<open>What \<open>Stop\<close> returns when the generation it waited for is done.\<close>

definition stop_result :: "go_error option option \<Rightarrow> go_error option" where
  "stop_result errp =
     (case errp of
        None \<Rightarrow> None
      | Some None \<Rightarrow> None
      | Some (Some e) \<Rightarrow> if errors_is e ContextCanceled then None else Some e)"

definition life_step :: "life_label \<Rightarrow> life \<Rightarrow> life option" where
  "life_step l s =
     (case l of
        VStart t \<Rightarrow>
          if starts_of s t \<noteq> None then None
          else if started s then Some (set_start t (SDone (Some (Sentinel ErrAlreadyStarted))) s)
          else Some (set_start t (SRun (Suc (current s))) (begin_start s))
      | VMarkReady t \<Rightarrow>
          (case starts_of s t of Some (SRun g) \<Rightarrow> Some (markReady None s) | _ \<Rightarrow> None)
      | VReturn t err \<Rightarrow>
          (case starts_of s t of
             Some (SRun g) \<Rightarrow> Some (set_start t (SStoreErr g err) (markReady err s))
           | _ \<Rightarrow> None)
      | VNext t \<Rightarrow> (case starts_of s t of None \<Rightarrow> None | Some ph \<Rightarrow> after_run t ph s)
      | VWait t \<Rightarrow> if waits_of s t \<noteq> None then None else Some (set_wait t WLook s)
      | VLook t \<Rightarrow>
          if waits_of s t \<noteq> Some WLook then None
          else if current s \<noteq> 0 then Some (set_wait t (WBlocked (current s)) s)
          else (case runErr s of
                  Some (Some e) \<Rightarrow> Some (set_wait t (WDone (Some e)) s)
                | _ \<Rightarrow> Some s)
      | VWake t \<Rightarrow>
          (case waits_of s t of
             Some (WBlocked g) \<Rightarrow>
               if g \<in> ready_closed s then Some (set_wait t (WDone (readyErr s)) s) else None
           | _ \<Rightarrow> None)
      | VWaitCtx t e \<Rightarrow>
          (case waits_of s t of
             Some (WDone _) \<Rightarrow> None
           | Some _ \<Rightarrow> Some (set_wait t (WDone (Some e)) s)
           | None \<Rightarrow> None)
      | VStop t \<Rightarrow>
          if stops_of s t \<noteq> None then None
          else if \<not> started s then Some (set_stop t (TDone (Some (Sentinel ErrNotStarted))) s)
          else Some (set_stop t (TWait (current s)) (s\<lparr>cancelled := insert (current s) (cancelled s)\<rparr>))
      | VStopWake t \<Rightarrow>
          (case stops_of s t of
             Some (TWait g) \<Rightarrow>
               if g \<in> done_closed s then Some (set_stop t (TDone (stop_result (runErr s))) s) else None
           | _ \<Rightarrow> None)
      | VStopCtx t e \<Rightarrow>
          (case stops_of s t of
             Some (TWait g) \<Rightarrow> Some (set_stop t (TDone (Some e)) s) | _ \<Rightarrow> None))"

definition new_life :: life where
  "new_life = \<lparr>started = False, ready = False, current = 0, readyClosed = False, readyErr = None,
     runErr = None, ready_closed = {}, done_closed = {}, cancelled = {},
     starts_of = Map.empty, waits_of = Map.empty, stops_of = Map.empty\<rparr>"

inductive life_reach :: "life \<Rightarrow> bool" where
  life_new: "life_reach new_life"
| life_next: "life_reach s \<Longrightarrow> life_step l s = Some s' \<Longrightarrow> life_reach s'"

fun life_run :: "life_label list \<Rightarrow> life \<Rightarrow> life option" where
  "life_run [] s = Some s"
| "life_run (l # ls) s = (case life_step l s of None \<Rightarrow> None | Some s1 \<Rightarrow> life_run ls s1)"

lemma life_reach_run: "life_run ls s = Some s' \<Longrightarrow> life_reach s \<Longrightarrow> life_reach s'"
  by (induction ls arbitrary: s) (auto split: option.splits intro: life_next)


section \<open>The invariant of the life cycle\<close>

text \<open>The generation a thread in \<open>Start\<close> belongs to, and whether it still counts as
  started.\<close>

fun generation :: "start_phase \<Rightarrow> nat option" where
  "generation (SRun g) = Some g"
| "generation (SStoreErr g err) = Some g"
| "generation (SClearStarted g err) = Some g"
| "generation (SClearReady g err) = Some g"
| "generation (SCancel g err) = Some g"
| "generation (SClose g err) = Some g"
| "generation (SDone err) = None"

fun active :: "start_phase \<Rightarrow> bool" where
  "active (SRun g) = True"
| "active (SStoreErr g err) = True"
| "active (SClearStarted g err) = True"
| "active _ = False"

type_synonym starters = "nat \<rightharpoonup> start_phase"

text \<open>Generations are distinct, an active thread has the current one, and it exists exactly
  when the server counts as started.\<close>

definition one_active :: "starters \<Rightarrow> bool \<Rightarrow> nat \<Rightarrow> bool" where
  "one_active S st cur \<longleftrightarrow>
     (\<forall>t ph g. S t = Some ph \<longrightarrow> generation ph = Some g \<longrightarrow> 0 < g \<and> g \<le> cur)
     \<and> (\<forall>t ph t' ph' g. S t = Some ph \<longrightarrow> S t' = Some ph' \<longrightarrow> generation ph = Some g \<longrightarrow>
          generation ph' = Some g \<longrightarrow> t = t')
     \<and> (\<forall>t ph. S t = Some ph \<longrightarrow> active ph \<longrightarrow> st \<and> generation ph = Some cur)
     \<and> (st \<longrightarrow> (\<exists>t ph. S t = Some ph \<and> active ph))"

text \<open>A generation whose \<open>readyCh\<close> is open is being run, one whose \<open>done\<close> is closed has
  left \<open>Start\<close>.\<close>

definition channels_ok :: "starters \<Rightarrow> nat \<Rightarrow> bool \<Rightarrow> nat set \<Rightarrow> nat set \<Rightarrow> bool" where
  "channels_ok S cur closed rc dc \<longleftrightarrow>
     (\<forall>g. 0 < g \<longrightarrow> g \<le> cur \<longrightarrow> g \<notin> rc \<longrightarrow> (\<exists>t. S t = Some (SRun g)))
     \<and> (0 < cur \<longrightarrow> (closed \<longleftrightarrow> cur \<in> rc)) \<and> (\<forall>g \<in> rc. g \<le> cur)
     \<and> (\<forall>g \<in> dc. g \<le> cur \<and> (\<forall>t ph. S t = Some ph \<longrightarrow> generation ph \<noteq> Some g))"

definition life_inv :: "life \<Rightarrow> bool" where
  "life_inv s \<longleftrightarrow>
     one_active (starts_of s) (started s) (current s)
     \<and> channels_ok (starts_of s) (current s) (readyClosed s) (ready_closed s) (done_closed s)
     \<and> (current s = 0 \<longrightarrow> runErr s = None)"

lemma active_generation: "active ph \<Longrightarrow> \<exists>g. generation ph = Some g"
  by (cases ph) auto

lemma one_activeD:
  assumes "one_active S st cur" and "S t = Some ph"
  shows "generation ph = Some g \<Longrightarrow> 0 < g \<and> g \<le> cur"
    and "active ph \<Longrightarrow> st \<and> generation ph = Some cur"
    and "generation ph = Some g \<Longrightarrow> S t' = Some ph' \<Longrightarrow> generation ph' = Some g \<Longrightarrow> t = t'"
  using assms unfolding one_active_def by blast+

text \<open>A thread that moves on keeps its generation or drops it.\<close>

lemma one_active_move:
  assumes inv: "one_active S st cur" and t: "S t = Some ph"
    and g: "\<And>g. generation ph' = Some g \<Longrightarrow> generation ph = Some g"
    and a: "active ph' \<Longrightarrow> active ph" and st': "st' \<longleftrightarrow> st \<and> (active ph \<longrightarrow> active ph')"
  shows "one_active (S(t \<mapsto> ph')) st' cur"
  unfolding one_active_def
proof (intro conjI allI impI)
  fix u ph1 g1 assume "(S(t \<mapsto> ph')) u = Some ph1" "generation ph1 = Some g1"
  then show "0 < g1" "g1 \<le> cur"
    using one_activeD(1) [OF inv t, of g1] one_activeD(1) [OF inv, of u ph1 g1] g [of g1]
    by (auto split: if_splits)
next
  fix u ph1 v ph2 g1
  assume "(S(t \<mapsto> ph')) u = Some ph1" "(S(t \<mapsto> ph')) v = Some ph2" "generation ph1 = Some g1"
    "generation ph2 = Some g1"
  then show "u = v"
    using one_activeD(3) [OF inv t, of g1] one_activeD(3) [OF inv, of u ph1 g1 v ph2] g [of g1]
    by (auto split: if_splits)
next
  fix u ph1 assume u: "(S(t \<mapsto> ph')) u = Some ph1" "active ph1"
  show "st'"
  proof (cases "u = t")
    case True
    with u a one_activeD(2) [OF inv t] st' show ?thesis by auto
  next
    case False
    with u have "S u = Some ph1" by simp
    moreover have "\<not> active ph"
    proof
      assume "active ph"
      with one_activeD(2) [OF inv t] one_activeD(2) [OF inv \<open>S u = Some ph1\<close> u(2)]
        one_activeD(3) [OF inv t] \<open>S u = Some ph1\<close> False show False by blast
    qed
    ultimately show ?thesis using one_activeD(2) [OF inv _ u(2)] st' by blast
  qed
  show "generation ph1 = Some cur"
  proof (cases "u = t")
    case True
    with u have "ph1 = ph'" by simp
    with u a have "generation ph = Some cur" using one_activeD(2) [OF inv t] by blast
    moreover obtain g1 where "generation ph' = Some g1" using active_generation u \<open>ph1 = ph'\<close> by blast
    ultimately show ?thesis using g \<open>ph1 = ph'\<close> by force
  next
    case False
    with u one_activeD(2) [OF inv, of u ph1] show ?thesis by simp
  qed
next
  assume st'
  with st' obtain u ph1 where u: "S u = Some ph1" "active ph1"
    using inv unfolding one_active_def by blast
  show "\<exists>u ph1. (S(t \<mapsto> ph')) u = Some ph1 \<and> active ph1"
  proof (cases "u = t")
    case True
    with u t \<open>st'\<close> st' show ?thesis by (intro exI [of _ t]) auto
  next
    case False
    with u show ?thesis by (intro exI [of _ u]) auto
  qed
qed

lemma one_active_start:
  assumes inv: "one_active S False cur" and t: "S t = None"
  shows "one_active (S(t \<mapsto> SRun (Suc cur))) True (Suc cur)"
proof -
  have no: "\<not> active ph" if "S u = Some ph" for u ph using one_activeD(2) [OF inv that] by blast
  have le: "0 < g \<and> g \<le> cur" if "S u = Some ph" "generation ph = Some g" for u ph g
    using one_activeD(1) [OF inv that] .
  have uniq: "u = v" if "S u = Some ph" "S v = Some ph'" "generation ph = Some g" "generation ph' = Some g"
    for u v ph ph' g using one_activeD(3) [OF inv that(1,3,2,4)] .
  show ?thesis
    unfolding one_active_def
    using no le uniq by (auto split: if_splits) (fastforce dest: le)+
qed

lemma one_active_idle:
  assumes "one_active S st cur" and "S t = None"
  shows "one_active (S(t \<mapsto> SDone err)) st cur"
  using assms unfolding one_active_def by (auto split: if_splits) (metis fun_upd_other option.distinct(1))


lemma channelsD:
  assumes "channels_ok S cur closed rc dc"
  shows "0 < g \<Longrightarrow> g \<le> cur \<Longrightarrow> g \<notin> rc \<Longrightarrow> \<exists>t. S t = Some (SRun g)"
    and "0 < cur \<Longrightarrow> closed \<longleftrightarrow> cur \<in> rc" and "g \<in> rc \<Longrightarrow> g \<le> cur" and "g \<in> dc \<Longrightarrow> g \<le> cur"
    and "g \<in> dc \<Longrightarrow> S t = Some ph \<Longrightarrow> generation ph \<noteq> Some g"
  using assms unfolding channels_ok_def by blast+

lemma channels_move:
  assumes inv: "channels_ok S cur closed rc dc" and t: "S t = Some ph"
    and g: "\<And>g. generation ph' = Some g \<Longrightarrow> generation ph = Some g"
    and run: "\<And>g. ph = SRun g \<Longrightarrow> g \<in> rc"
  shows "channels_ok (S(t \<mapsto> ph')) cur closed rc dc"
  unfolding channels_ok_def
proof (intro conjI allI impI ballI)
  fix h assume h: "0 < h" "h \<le> cur" "h \<notin> rc"
  then obtain u where "S u = Some (SRun h)" using channelsD(1) [OF inv] by blast
  moreover with t run h(3) have "u \<noteq> t" by auto
  ultimately show "\<exists>u. (S(t \<mapsto> ph')) u = Some (SRun h)" by (intro exI [of _ u]) simp
next
  fix h u ph1 assume "h \<in> dc" "(S(t \<mapsto> ph')) u = Some ph1"
  with channelsD(5) [OF inv] t g show "generation ph1 \<noteq> Some h" by (auto split: if_splits)
qed (use channelsD [OF inv] in auto)

lemma channels_mark:
  assumes "channels_ok S cur closed rc dc" and "0 < cur"
  shows "channels_ok S cur True (insert cur rc) dc"
  using assms unfolding channels_ok_def by auto

lemma channels_done:
  assumes "channels_ok S cur closed rc dc" and "\<forall>t ph. S t = Some ph \<longrightarrow> generation ph \<noteq> Some g" and "g \<le> cur"
  shows "channels_ok S cur closed rc (insert g dc)"
  using assms unfolding channels_ok_def by auto

lemma channels_start:
  assumes inv: "channels_ok S cur closed rc dc" and t: "S t = None"
  shows "channels_ok (S(t \<mapsto> SRun (Suc cur))) (Suc cur) False rc dc"
  unfolding channels_ok_def
proof (intro conjI allI impI ballI)
  fix h assume h: "0 < h" "h \<le> Suc cur" "h \<notin> rc"
  show "\<exists>u. (S(t \<mapsto> SRun (Suc cur))) u = Some (SRun h)"
  proof (cases "h = Suc cur")
    case True
    then show ?thesis by (intro exI [of _ t]) simp
  next
    case False
    with h channelsD(1) [OF inv, of h] obtain u where "S u = Some (SRun h)" by auto
    with t show ?thesis by (intro exI [of _ u]) auto
  qed
next
  fix h u ph assume "h \<in> dc" "(S(t \<mapsto> SRun (Suc cur))) u = Some ph"
  with channelsD(4,5) [OF inv, of h] show "generation ph \<noteq> Some h" by (fastforce split: if_splits)
qed (use channelsD(3,4) [OF inv] in fastforce)+

lemma channels_idle:
  assumes inv: "channels_ok S cur closed rc dc" and t: "S t = None"
  shows "channels_ok (S(t \<mapsto> SDone err)) cur closed rc dc"
  unfolding channels_ok_def
proof (intro conjI allI impI ballI)
  fix h assume h: "0 < h" "h \<le> cur" "h \<notin> rc"
  then obtain u where "S u = Some (SRun h)" using channelsD(1) [OF inv] by blast
  with t show "\<exists>u. (S(t \<mapsto> SDone err)) u = Some (SRun h)" by (intro exI [of _ u]) auto
next
  fix h u ph assume "h \<in> dc" "(S(t \<mapsto> SDone err)) u = Some ph"
  with channelsD(5) [OF inv] show "generation ph \<noteq> Some h" by (auto split: if_splits)
qed (use channelsD [OF inv] in auto)

lemma markReady_frame [simp]:
  "starts_of (markReady err l) = starts_of l" "waits_of (markReady err l) = waits_of l"
  "stops_of (markReady err l) = stops_of l" "started (markReady err s) = started s"
  "current (markReady err s) = current s" "done_closed (markReady err s) = done_closed s"
  "runErr (markReady err s) = runErr s" "cancelled (markReady err s) = cancelled s"
  by (simp_all add: markReady_def)

lemma markReady_channels:
  assumes "channels_ok S (current s) (readyClosed s) (ready_closed s) dc" and "0 < current s"
  shows "channels_ok S (current s) (readyClosed (markReady err s)) (ready_closed (markReady err s)) dc"
    and "current s \<in> ready_closed (markReady err s)"
  using assms channels_mark [OF assms] channelsD(2) [OF assms(1)] by (auto simp: markReady_def)

lemma after_run_inv:
  assumes inv: "life_inv s" and t: "starts_of s t = Some ph" and st: "after_run t ph s = Some s'"
  shows "life_inv s'"
proof -
  have oa: "one_active (starts_of s) (started s) (current s)"
    and ch: "channels_ok (starts_of s) (current s) (readyClosed s) (ready_closed s) (done_closed s)"
    and re: "current s = 0 \<longrightarrow> runErr s = None" using inv by (auto simp: life_inv_def)
  show ?thesis
  proof (cases ph)
    case (SClose g err)
    have "channels_ok ((starts_of s)(t \<mapsto> SDone err)) (current s) (readyClosed s) (ready_closed s) (done_closed s)"
      by (rule channels_move [OF ch t]) (use SClose in auto)
    moreover have "\<forall>u ph1. ((starts_of s)(t \<mapsto> SDone err)) u = Some ph1 \<longrightarrow> generation ph1 \<noteq> Some g"
      using one_activeD(3) [OF oa t] SClose by auto
    moreover have "g \<le> current s" using one_activeD(1) [OF oa t] SClose by simp
    ultimately have "channels_ok ((starts_of s)(t \<mapsto> SDone err)) (current s) (readyClosed s) (ready_closed s)
        (insert g (done_closed s))" by (rule channels_done)
    moreover have "one_active ((starts_of s)(t \<mapsto> SDone err)) (started s) (current s)"
      by (rule one_active_move [OF oa t]) (use SClose in auto)
    ultimately show ?thesis using st SClose re by (auto simp: life_inv_def set_start_def)
  next
    case (SStoreErr g err)
    have "channels_ok ((starts_of s)(t \<mapsto> SClearStarted g err)) (current s) (readyClosed s) (ready_closed s) (done_closed s)"
      by (rule channels_move [OF ch t]) (use SStoreErr in auto)
    moreover have "one_active ((starts_of s)(t \<mapsto> SClearStarted g err)) (started s) (current s)"
      by (rule one_active_move [OF oa t]) (use SStoreErr in auto)
    moreover have "0 < current s" using one_activeD(1) [OF oa t] SStoreErr by fastforce
    ultimately show ?thesis using st SStoreErr by (auto simp: life_inv_def set_start_def)
  next
    case (SClearStarted g err)
    have "channels_ok ((starts_of s)(t \<mapsto> SClearReady g err)) (current s) (readyClosed s) (ready_closed s) (done_closed s)"
      by (rule channels_move [OF ch t]) (use SClearStarted in auto)
    moreover have "one_active ((starts_of s)(t \<mapsto> SClearReady g err)) False (current s)"
      by (rule one_active_move [OF oa t]) (use SClearStarted in auto)
    ultimately show ?thesis using st SClearStarted re by (auto simp: life_inv_def set_start_def)
  next
    case (SClearReady g err)
    have "channels_ok ((starts_of s)(t \<mapsto> SCancel g err)) (current s) (readyClosed s) (ready_closed s) (done_closed s)"
      by (rule channels_move [OF ch t]) (use SClearReady in auto)
    moreover have "one_active ((starts_of s)(t \<mapsto> SCancel g err)) (started s) (current s)"
      by (rule one_active_move [OF oa t]) (use SClearReady in auto)
    ultimately show ?thesis using st SClearReady re by (auto simp: life_inv_def set_start_def)
  next
    case (SCancel g err)
    have "channels_ok ((starts_of s)(t \<mapsto> SClose g err)) (current s) (readyClosed s) (ready_closed s) (done_closed s)"
      by (rule channels_move [OF ch t]) (use SCancel in auto)
    moreover have "one_active ((starts_of s)(t \<mapsto> SClose g err)) (started s) (current s)"
      by (rule one_active_move [OF oa t]) (use SCancel in auto)
    ultimately show ?thesis using st SCancel re by (auto simp: life_inv_def set_start_def)
  qed (use st in auto)
qed

text \<open>Steps of \<open>WaitReady\<close> and \<open>Stop\<close> leave what the invariant is about alone.\<close>

lemma life_inv_frame:
  assumes "life_inv s" and "starts_of s' = starts_of s" and "started s' = started s" and "current s' = current s"
    and "readyClosed s' = readyClosed s" and "ready_closed s' = ready_closed s" and "done_closed s' = done_closed s"
    and "runErr s' = runErr s"
  shows "life_inv s'"
  using assms by (simp add: life_inv_def)

lemma life_inv_step:
  assumes inv: "life_inv s" and st: "life_step l s = Some s'"
  shows "life_inv s'"
proof (cases l)
  case (VStart t)
  show ?thesis
  proof (cases "started s")
    case True
    with st VStart inv show ?thesis
      by (auto simp: life_step_def set_start_def life_inv_def one_active_idle channels_idle split: if_splits)
  next
    case False
    with st VStart inv one_active_start [of "starts_of s" "current s" t] show ?thesis
      by (auto simp: life_step_def set_start_def begin_start_def life_inv_def channels_start split: if_splits)
  qed
next
  case (VMarkReady t)
  with st obtain g where t: "starts_of s t = Some (SRun g)" and s': "s' = markReady None s"
    by (auto simp: life_step_def split: option.splits start_phase.splits)
  have oa: "one_active (starts_of s) (started s) (current s)" using inv by (simp add: life_inv_def)
  have "0 < current s" using one_activeD(1) [OF oa t, of g] by simp
  with inv markReady_channels(1) [of "starts_of s" s "done_closed s" None] show ?thesis
    by (simp add: life_inv_def s')
next
  case (VReturn t err)
  with st obtain g where t: "starts_of s t = Some (SRun g)"
      and s': "s' = set_start t (SStoreErr g err) (markReady err s)"
    by (auto simp: life_step_def split: option.splits start_phase.splits)
  have oa: "one_active (starts_of s) (started s) (current s)" using inv by (simp add: life_inv_def)
  have g: "g = current s" "0 < current s" using one_activeD(1,2) [OF oa t] by fastforce+
  have mr: "channels_ok (starts_of s) (current s) (readyClosed (markReady err s)) (ready_closed (markReady err s))
      (done_closed s)" "g \<in> ready_closed (markReady err s)"
    using markReady_channels [of "starts_of s" s "done_closed s" err] inv g by (auto simp: life_inv_def)
  have "channels_ok ((starts_of s)(t \<mapsto> SStoreErr g err)) (current s) (readyClosed (markReady err s))
      (ready_closed (markReady err s)) (done_closed s)"
    by (rule channels_move [OF mr(1) t]) (use mr(2) in auto)
  moreover have "one_active ((starts_of s)(t \<mapsto> SStoreErr g err)) (started s) (current s)"
    by (rule one_active_move [OF oa t]) auto
  ultimately show ?thesis using inv g by (simp add: life_inv_def s' set_start_def)
next
  case (VNext t)
  with st after_run_inv [OF inv] show ?thesis by (auto simp: life_step_def split: option.splits)
qed (use st in \<open>auto simp: life_step_def set_wait_def set_stop_def intro!: life_inv_frame [OF inv]
      split: if_splits option.splits wait_phase.splits stop_phase.splits\<close>)

lemma life_inv_reach: "life_reach s \<Longrightarrow> life_inv s"
proof (induction rule: life_reach.induct)
  case life_new
  then show ?case by (simp add: life_inv_def new_life_def one_active_def channels_ok_def)
next
  case (life_next s l s')
  show ?case by (rule life_inv_step [OF life_next.IH life_next.hyps(2)])
qed


text \<open>Waiters wait for a generation that has begun.\<close>

definition waiters_ok :: "life \<Rightarrow> bool" where
  "waiters_ok s \<longleftrightarrow> (\<forall>u g. waits_of s u = Some (WBlocked g) \<longrightarrow> 0 < g \<and> g \<le> current s)"

lemma after_run_frame:
  "after_run t ph s = Some s' \<Longrightarrow> waits_of s' = waits_of s \<and> current s' = current s"
  by (cases ph) (auto simp: set_start_def)

lemma step_waiters:
  "life_step l s = Some s' \<Longrightarrow> current s \<le> current s'
     \<and> (waits_of s' u = Some (WBlocked g) \<longrightarrow> waits_of s u = Some (WBlocked g) \<or> 0 < g \<and> g = current s)"
  by (cases l)
    (auto simp: life_step_def set_start_def set_wait_def set_stop_def begin_start_def
        dest!: after_run_frame split: if_splits option.splits start_phase.splits wait_phase.splits
        stop_phase.splits)

lemma waiters_ok_step:
  assumes "waiters_ok s" and "life_step l s = Some s'"
  shows "waiters_ok s'"
  unfolding waiters_ok_def
proof (intro allI impI)
  fix u g assume "waits_of s' u = Some (WBlocked g)"
  with step_waiters [OF assms(2), of u g] assms(1) have "0 < g \<and> g \<le> current s \<and> current s \<le> current s'"
    by (auto simp: waiters_ok_def)
  then show "0 < g \<and> g \<le> current s'" by linarith
qed

lemma waiters_ok_reach: "life_reach s \<Longrightarrow> waiters_ok s"
proof (induction rule: life_reach.induct)
  case life_new
  then show ?case by (simp add: waiters_ok_def new_life_def)
next
  case (life_next s l s')
  show ?case by (rule waiters_ok_step [OF life_next.IH life_next.hyps(2)])
qed

text \<open>A generation that is not done has its thread in \<open>Start\<close>, and a \<open>Stop\<close> waits for a
  generation that has begun.\<close>

definition pending_ok :: "life \<Rightarrow> bool" where
  "pending_ok s \<longleftrightarrow>
     (\<forall>g. 0 < g \<and> g \<le> current s \<and> g \<notin> done_closed s \<longrightarrow>
        (\<exists>t ph. starts_of s t = Some ph \<and> generation ph = Some g))
     \<and> (\<forall>u g. stops_of s u = Some (TWait g) \<longrightarrow> 0 < g \<and> g \<le> current s)"

lemma pending_keep:
  assumes "pending_ok s" and "starts_of s t = Some ph" and "current s' = current s" and "stops_of s' = stops_of s"
    and "starts_of s' = (starts_of s)(t \<mapsto> ph')" and "generation ph' = generation ph" and "done_closed s' = done_closed s"
  shows "pending_ok s'"
proof -
  have "\<exists>r ph. starts_of s' r = Some ph \<and> generation ph = Some g"
    if "\<exists>r ph. starts_of s r = Some ph \<and> generation ph = Some g" for g
  proof -
    from that obtain r qh where r: "starts_of s r = Some qh" "generation qh = Some g" by blast
    with assms(2,5,6) show ?thesis by (cases "r = t") (auto intro: exI [of _ t] exI [of _ r])
  qed
  with assms(1,3,4,7) show ?thesis by (auto simp: pending_ok_def)
qed

lemma pending_grow:
  assumes "pending_ok s" and "current s' = current s" and "stops_of s' = stops_of s" and "done_closed s' = done_closed s"
    and "\<And>r ph g. starts_of s r = Some ph \<Longrightarrow> generation ph = Some g \<Longrightarrow>
          \<exists>r ph. starts_of s' r = Some ph \<and> generation ph = Some g"
  shows "pending_ok s'"
  unfolding pending_ok_def
proof (intro conjI allI impI)
  fix g assume "0 < g \<and> g \<le> current s' \<and> g \<notin> done_closed s'"
  with assms(1,2,4) obtain r ph where "starts_of s r = Some ph" "generation ph = Some g"
    by (auto simp: pending_ok_def)
  then show "\<exists>t ph. starts_of s' t = Some ph \<and> generation ph = Some g" by (rule assms(5))
next
  fix u g assume "stops_of s' u = Some (TWait g)"
  with assms(1-3) show "0 < g" "g \<le> current s'" by (auto simp: pending_ok_def)
qed

lemma pending_after_run:
  assumes "pending_ok s" and "starts_of s t = Some ph" and "after_run t ph s = Some s'"
  shows "pending_ok s'"
proof (cases ph)
  case (SClose g err)
  have "\<exists>r ph. starts_of s' r = Some ph \<and> generation ph = Some h"
    if "\<exists>r ph. starts_of s r = Some ph \<and> generation ph = Some h" and "h \<noteq> g" for h
  proof -
    from that(1) obtain r qh where r: "starts_of s r = Some qh" "generation qh = Some h" by blast
    with that(2) assms(2) SClose have "r \<noteq> t" by auto
    with r assms(3) SClose show ?thesis by (auto simp: set_start_def intro: exI [of _ r])
  qed
  with assms(1,3) SClose show ?thesis by (auto simp: pending_ok_def set_start_def)
qed (use assms in \<open>auto simp: set_start_def intro: pending_keep [OF assms(1,2)]\<close>)

lemma pending_frame:
  assumes "pending_ok s" and "starts_of s' = starts_of s" and "current s' = current s" and "done_closed s' = done_closed s"
    and "\<forall>u g. stops_of s' u = Some (TWait g) \<longrightarrow> stops_of s u = Some (TWait g) \<or> 0 < g \<and> g = current s"
  shows "pending_ok s'"
  using assms by (fastforce simp: pending_ok_def)

lemma started_current: "life_inv s \<Longrightarrow> started s \<Longrightarrow> 0 < current s"
  unfolding life_inv_def one_active_def by blast

lemma pending_step:
  assumes "pending_ok s" and "life_inv s" and "life_step l s = Some s'"
  shows "pending_ok s'"
proof (cases l)
  case (VStart t)
  show ?thesis
  proof (cases "started s")
    case True
    with assms VStart have fresh: "starts_of s t = None" "s' = set_start t (SDone (Some (Sentinel ErrAlreadyStarted))) s"
      by (auto simp: life_step_def split: if_splits)
    have "\<exists>r ph. starts_of s' r = Some ph \<and> generation ph = Some g"
      if r: "starts_of s r = Some ph" "generation ph = Some g" for r ph g
      using r fresh by (cases "r = t") (auto simp: set_start_def)
    then show ?thesis using fresh(2)
      by (intro pending_grow [OF assms(1)]) (auto simp: set_start_def)
  next
    case False
    with assms VStart have fresh: "starts_of s t = None" "s' = set_start t (SRun (Suc (current s))) (begin_start s)"
      by (auto simp: life_step_def split: if_splits)
    have "\<exists>r ph. starts_of s' r = Some ph \<and> generation ph = Some g"
      if g: "0 < g" "g \<le> Suc (current s)" "g \<notin> done_closed s" for g
    proof (cases "g = Suc (current s)")
      case True
      then show ?thesis using fresh by (intro exI [of _ t]) (simp add: set_start_def)
    next
      case False
      with g assms(1) obtain r ph where r: "starts_of s r = Some ph" "generation ph = Some g"
        by (auto simp: pending_ok_def)
      with fresh have "r \<noteq> t" by auto
      with r fresh(2) show ?thesis by (intro exI [of _ r]) (simp add: set_start_def begin_start_def)
    qed
    with assms(1) fresh(2) show ?thesis
      by (auto simp: pending_ok_def set_start_def begin_start_def intro: le_SucI)
  qed
next
  case (VReturn t err)
  then obtain g where g: "starts_of s t = Some (SRun g)" "s' = set_start t (SStoreErr g err) (markReady err s)"
    using assms(3) by (auto simp: life_step_def split: option.splits start_phase.splits)
  show ?thesis by (rule pending_keep [OF assms(1) g(1), where ph' = "SStoreErr g err"]) (simp_all add: g(2) set_start_def)
next
  case (VNext t)
  then obtain ph where "starts_of s t = Some ph" "after_run t ph s = Some s'"
    using assms(3) by (auto simp: life_step_def split: option.splits)
  with pending_after_run assms(1) show ?thesis by blast
next
  case (VStop t)
  then have "(if started s then s' = set_stop t (TWait (current s)) (s\<lparr>cancelled := insert (current s) (cancelled s)\<rparr>)
      else s' = set_stop t (TDone (Some (Sentinel ErrNotStarted))) s)"
    using assms(3) by (auto simp: life_step_def split: if_splits)
  then show ?thesis using started_current [OF assms(2)]
    by (cases "started s") (simp_all add: pending_frame [OF assms(1)] set_stop_def)
qed (use assms(3) in \<open>auto simp: life_step_def set_wait_def set_stop_def intro!: pending_frame [OF assms(1)]
    split: if_splits option.splits start_phase.splits wait_phase.splits stop_phase.splits\<close>)

lemma pending_reach: "life_reach s \<Longrightarrow> pending_ok s"
proof (induction rule: life_reach.induct)
  case life_new
  then show ?case by (auto simp: pending_ok_def new_life_def)
next
  case (life_next s l s')
  from life_next.IH life_inv_reach [OF life_next.hyps(1)] life_next.hyps(2) show ?case by (rule pending_step)
qed

text \<open>The steps a thread in \<open>Start\<close> still has to make.\<close>

fun steps_left :: "nat \<Rightarrow> start_phase \<Rightarrow> life_label list" where
  "steps_left t (SRun g) = [VReturn t None, VNext t, VNext t, VNext t, VNext t, VNext t]"
| "steps_left t (SStoreErr g err) = [VNext t, VNext t, VNext t, VNext t, VNext t]"
| "steps_left t (SClearStarted g err) = [VNext t, VNext t, VNext t, VNext t]"
| "steps_left t (SClearReady g err) = [VNext t, VNext t, VNext t]"
| "steps_left t (SCancel g err) = [VNext t, VNext t]"
| "steps_left t (SClose g err) = [VNext t]"
| "steps_left t (SDone err) = []"

lemma steps_left_run:
  assumes "starts_of s t = Some ph" and "generation ph = Some g"
  shows "\<exists>s'. life_run (steps_left t ph) s = Some s' \<and> g \<in> done_closed s' \<and> stops_of s' = stops_of s"
  using assms by (cases ph) (simp_all add: life_step_def set_start_def)

lemma life_run_append: "life_run (ls @ ms) s = Option.bind (life_run ls s) (life_run ms)"
  by (induction ls arbitrary: s) (simp_all split: option.split)

lemma stop_can_finish:
  assumes "life_reach s" and "stops_of s u = Some (TWait g)"
  shows "\<exists>t ls s' res. set ls \<subseteq> {VReturn t None, VNext t} \<and> length ls \<le> 6
    \<and> life_run (ls @ [VStopWake u]) s = Some s' \<and> stops_of s' u = Some (TDone res)"
proof -
  have p: "pending_ok s" using assms(1) by (rule pending_reach)
  have "\<exists>t ls s1. set ls \<subseteq> {VReturn t None, VNext t} \<and> length ls \<le> 6
      \<and> life_run ls s = Some s1 \<and> g \<in> done_closed s1 \<and> stops_of s1 = stops_of s"
  proof (cases "g \<in> done_closed s")
    case True
    then show ?thesis by (intro exI [of _ "0 :: nat"] exI [of _ "[]"] exI [of _ s]) simp
  next
    case False
    moreover have "0 < g \<and> g \<le> current s" using p assms(2) unfolding pending_ok_def by blast
    ultimately obtain t ph where t: "starts_of s t = Some ph" "generation ph = Some g"
      using p unfolding pending_ok_def by blast
    have "set (steps_left t ph) \<subseteq> {VReturn t None, VNext t} \<and> length (steps_left t ph) \<le> 6" by (cases ph) auto
    with steps_left_run [OF t] show ?thesis by blast
  qed
  then obtain t ls s1 where l: "set ls \<subseteq> {VReturn t None, VNext t}" "length ls \<le> 6"
      "life_run ls s = Some s1" "g \<in> done_closed s1" "stops_of s1 = stops_of s"
    by blast
  then have "life_run (ls @ [VStopWake u]) s = Some (set_stop u (TDone (stop_result (runErr s1))) s1)"
    using assms(2) by (simp add: life_run_append life_step_def)
  with l show ?thesis by (metis fun_upd_same life.select_convs(3) life.surjective life.update_convs(3) set_stop_def)
qed

section \<open>The properties\<close>

text \<open>C11: However calls of \<open>Start\<close> interleave, at most one of them is between its locked
  section and its clearing of \<open>started\<close>, in particular at most one runs the runner, and
  the server counts as started while it does.\<close>

theorem one_run_at_a_time:
  assumes "life_reach s" and "starts_of s t = Some ph" and "starts_of s t' = Some ph'"
    and "active ph" and "active ph'"
  shows "t = t' \<and> started s"
proof -
  have oa: "one_active (starts_of s) (started s) (current s)"
    using life_inv_reach [OF assms(1)] by (simp add: life_inv_def)
  from one_activeD(2) [OF oa assms(2,4)] one_activeD(2) [OF oa assms(3,5)] one_activeD(3) [OF oa assms(2) _ assms(3)]
  show ?thesis by blast
qed


text \<open>C19: A \<open>WaitReady\<close> never waits in vain: once the runner it waits for has returned,
  with or without having become ready, the waiter can go on.\<close>

theorem waiters_are_woken:
  assumes "life_reach s" and "waits_of s u = Some (WBlocked g)" and "\<nexists>t. starts_of s t = Some (SRun g)"
  shows "life_step (VWake u) s = Some (set_wait u (WDone (readyErr s)) s)"
proof -
  have "channels_ok (starts_of s) (current s) (readyClosed s) (ready_closed s) (done_closed s)"
    using life_inv_reach [OF assms(1)] by (simp add: life_inv_def)
  moreover have "0 < g" "g \<le> current s"
    using waiters_ok_reach [OF assms(1)] assms(2) by (auto simp: waiters_ok_def)
  ultimately have "g \<in> ready_closed s" using channelsD(1) assms(3) by blast
  with assms(2) show ?thesis by (simp add: life_step_def)
qed

text \<open>C6: A \<open>Stop\<close> is never stuck: from every reachable state in which it waits, the thread
  of the run it stopped can, by at most six steps of its own (the return of the runner among
  them), let it return; no step of any other caller is needed.\<close>

theorem stop_can_always_finish:
  assumes "life_reach s" and "stops_of s u = Some (TWait g)"
  shows "\<exists>t ls s' res. set ls \<subseteq> {VReturn t None, VNext t} \<and> length ls \<le> 6
    \<and> life_run (ls @ [VStopWake u]) s = Some s' \<and> stops_of s' u = Some (TDone res)"
  by (rule stop_can_finish [OF assms])

definition demo_stop_run :: "life_label list" where
  "demo_stop_run = [VStart 0, VMarkReady 0, VWait 5, VLook 5, VStop 7, VReturn 0 None, VNext 0, VNext 0, VNext 0,
     VNext 0, VNext 0]"

definition demo_over :: life where
  "demo_over = \<lparr>started = False, ready = False, current = 1, readyClosed = True, readyErr = None,
     runErr = Some None, ready_closed = {1}, done_closed = {1}, cancelled = {1},
     starts_of = [0 \<mapsto> SDone None], waits_of = [5 \<mapsto> WBlocked 1], stops_of = [7 \<mapsto> TWait 1]\<rparr>"

lemmas life_defs = life_step_def set_start_def set_wait_def set_stop_def begin_start_def markReady_def

lemma demo_over_reach: "life_reach demo_over"
proof (rule life_reach_run)
  show "life_run demo_stop_run new_life = Some demo_over"
    by (simp add: demo_stop_run_def demo_over_def new_life_def life_defs)
qed (rule life_new)

lemma demo_over_simps [simp]:
  "starts_of demo_over = [0 \<mapsto> SDone None]" "waits_of demo_over = [5 \<mapsto> WBlocked 1]"
  "stops_of demo_over = [7 \<mapsto> TWait 1]" "done_closed demo_over = {1}" "readyErr demo_over = None"
  by (simp_all add: demo_over_def)


lemma stop_can_always_finish_witness:
  "\<exists>t ls s' res. set ls \<subseteq> {VReturn t None, VNext t} \<and> length ls \<le> 6
    \<and> life_run (ls @ [VStopWake 7]) demo_over = Some s' \<and> stops_of s' 7 = Some (TDone res)"
  by (rule stop_can_always_finish [OF demo_over_reach, of 7 1]) simp

lemma waiters_are_woken_witness:
  "life_step (VWake 5) demo_over = Some (set_wait 5 (WDone None) demo_over)"
  using waiters_are_woken [OF demo_over_reach, of 5 1] by (simp split: if_splits)

lemma one_run_at_a_time_witness:
  "\<exists>s. life_run [VStart 3] new_life = Some s \<and> starts_of s 3 = Some (SRun 1) \<and> started s"
proof -
  obtain s where s: "life_run [VStart 3] new_life = Some s" "starts_of s 3 = Some (SRun 1)"
    by (auto simp: new_life_def life_defs)
  with one_run_at_a_time [OF life_reach_run [OF s(1) life_new] s(2) s(2)] show ?thesis by auto
qed


text \<open>\<open>WaitReady\<close> can report success for a server that was never ready: a run that
  returns nil before readiness, as a run stopped during its start does, marks the server
  ready without an error on its way out.\<close>

lemma wait_ready_succeeds_without_readiness:
  "\<exists>s. life_run [VStart 0, VWait 9, VLook 9, VStop 1, VReturn 0 None, VWake 9, VNext 0, VNext 0] new_life = Some s
      \<and> waits_of s 9 = Some (WDone None) \<and> \<not> started s"
  by (simp add: new_life_def life_defs)

text \<open>The look of \<open>WaitReady\<close> at the error of an earlier run is dead code: it is reached
  only while no \<open>readyCh\<close> exists, before the first \<open>Start\<close>, and then no run has left
  an error, so a waiter at that point always goes on polling.\<close>

lemma wait_ready_error_branch_is_dead:
  assumes "life_reach s" and "waits_of s u = Some WLook" and "current s = 0"
  shows "life_step (VLook u) s = Some s"
  using life_inv_reach [OF assms(1)] assms(2,3) by (simp add: life_inv_def life_step_def)

lemma wait_ready_error_branch_is_dead_witness:
  "life_step (VLook 0) (set_wait 0 WLook new_life) = Some (set_wait 0 WLook new_life)"
proof (rule wait_ready_error_branch_is_dead)
  have "life_run [VWait 0] new_life = Some (set_wait 0 WLook new_life)" by (simp add: new_life_def life_defs)
  then show "life_reach (set_wait 0 WLook new_life)" by (rule life_reach_run) (rule life_new)
qed (simp_all add: set_wait_def new_life_def)

text \<open>\<open>New\<close> succeeds exactly on the options that \<open>validate\<close> accepts, keeps the
  validated options and picks the runner of their mode; its last branch is never taken.\<close>

lemma New_picks_runner_of_mode:
  "server_New opts = (case validate opts of
      (opts', Some e) \<Rightarrow> Inl e
    | (opts', None) \<Rightarrow> Inr (opts', if o_Mode opts = ModeEmbedded then EmbeddedRunner else SubprocessRunner))"
proof (cases "validate opts")
  case (Pair opts' err)
  have "ModeSubprocess \<noteq> ModeEmbedded" by (simp add: ModeSubprocess_def ModeEmbedded_def)
  moreover have "o_Mode opts' = o_Mode opts" using validate_frame [OF Pair] by blast
  moreover have "o_Mode opts' \<in> {ModeEmbedded, ModeSubprocess}" if "err = None"
    using validate_ok_wf [of opts opts'] Pair that by (simp add: wf_options_def)
  ultimately show ?thesis using Pair by (auto simp: server_New_def split: option.splits)
qed

end
