(* ===== verification/Download.thy ===== *)
theory Download
  imports Json Files Sha256
begin

text \<open>
  Fetching a release artifact (\<^verbatim>\<open>download.go\<close>): which artifact the platform needs, which
  version is meant, the checksum the release lists for it, and \<open>downloadAsset\<close>, which
  answers with a cached copy or downloads one, and hands out a path only after it has
  hashed the file.

  File modes are written in decimal: 384, 420 and 493 are the octal 600, 644 and 755.

  The network and the answers of the operating system are the record \<open>dl_env\<close>: what a GET
  of a URL gives, and which call fails how. The files are passed through. Logging is
  output and left out.
\<close>

section \<open>Constants and platforms\<close>

type_synonym assetKind = int

definition assetKindBinary :: assetKind where "assetKindBinary = 0"
definition assetKindLibrary :: assetKind where "assetKindLibrary = 1"

definition DefaultMirrorVersion :: string where "DefaultMirrorVersion = ''v0.3.12''"
definition DefaultDownloadBase :: string where
  "DefaultDownloadBase = ''https://github.com/minekube/vialite/releases/download''"
definition DefaultLatestReleaseURL :: string where
  "DefaultLatestReleaseURL = ''https://api.github.com/repos/minekube/vialite/releases/latest''"

definition assetFor :: "assetKind \<Rightarrow> string \<Rightarrow> string \<Rightarrow> (go_error, string) result" where
  "assetFor kind goos goarch =
     (if goarch \<noteq> ''amd64'' \<and> goarch \<noteq> ''arm64'' then
        Inl (NewError ''auto-download supports amd64/arm64 only'' [goarch])
      else if goos = ''windows'' then
        (if kind = assetKindBinary \<and> goarch = ''amd64'' then Inr ''vialite-windows-amd64.exe''
         else Inl (NewError ''auto-download supports windows/amd64 subprocess binaries only'' [goos, goarch]))
      else if goos \<noteq> ''linux'' then
        Inl (NewError ''auto-download supports linux and windows only'' [goos, goarch])
      else if kind = assetKindBinary then Inr (''vialite-linux-'' @ goarch)
      else if kind = assetKindLibrary then Inr (''libvialite-linux-'' @ goarch @ ''.so'')
      else Inl (NewError ''unknown asset kind'' []))"

section \<open>The environment\<close>

text \<open>The answer to a GET: no response, or a status, the bytes of the body and the error
  that ends it early, if one does.\<close>

datatype http_reply =
    NoResponse go_error
  | Response int string "go_error option"

record dl_env =
  d_GOOS :: string
  d_GOARCH :: string
  d_UserCacheDir :: "(go_error, string) result"
  d_http :: "string \<Rightarrow> http_reply"
  d_MkdirAll :: "string \<Rightarrow> go_error option"
  d_temp_names :: "string list"
  d_CreateTemp :: "go_error option"
  d_open_write :: "go_error option"
  d_write :: "(nat \<times> go_error) option"
  d_close :: "go_error option"
  d_open_read :: "string \<Rightarrow> go_error option"
  d_read :: "string \<Rightarrow> go_error option"
  d_chmod_ok :: bool
  d_Rename :: "go_error option"
  d_remove_ok :: bool

section \<open>Requests\<close>

definition httpGet :: "dl_env \<Rightarrow> string \<Rightarrow> (go_error, string \<times> go_error option) result" where
  "httpGet env url =
     (case d_http env url of
        NoResponse e \<Rightarrow> Inl e
      | Response status body err \<Rightarrow>
          if status div 100 \<noteq> 2 then Inl (NewError ''http'' [FormatInt status, url])
          else Inr (body, err))"

text \<open>\<^verbatim>\<open>io.ReadAll(io.LimitReader(body, n))\<close>.\<close>

definition read_limited :: "nat \<Rightarrow> string \<times> go_error option \<Rightarrow> (go_error, string) result" where
  "read_limited n stream =
     (if n \<le> length (fst stream) then Inr (take n (fst stream))
      else case snd stream of None \<Rightarrow> Inr (fst stream) | Some e \<Rightarrow> Inl e)"

definition metadata_limit :: nat where "metadata_limit = 65536"
definition checksums_limit :: nat where "checksums_limit = 1048576"

definition tag_name :: string where "tag_name = ''tag_name''"

definition fetchLatestReleaseTag :: "dl_env \<Rightarrow> string \<Rightarrow> (go_error, string) result" where
  "fetchLatestReleaseTag env url =
     (case httpGet env url of
        Inl e \<Rightarrow> Inl (Wrapped e [''fetch latest release''])
      | Inr stream \<Rightarrow>
          (case read_limited metadata_limit stream of
             Inl e \<Rightarrow> Inl e
           | Inr content \<Rightarrow>
               (case unmarshal_field tag_name content of
                  Inl e \<Rightarrow> Inl (Wrapped e [''parse latest release metadata''])
                | Inr value \<Rightarrow>
                    (let tag = TrimSpace value in
                     if tag = [] then Inl (NewError ''latest release metadata missing tag_name'' [])
                     else Inr tag))))"

definition latestVersionRequested :: "string \<Rightarrow> bool" where
  "latestVersionRequested version \<longleftrightarrow>
     version = [] \<or> EqualFold version ''auto'' \<or> EqualFold version ''latest''"

definition mirrorLatestReleaseURL :: "string \<Rightarrow> string" where
  "mirrorLatestReleaseURL mirror = TrimSuffix mirror [slash] @ ''/latest''"

definition resolveDownloadVersion :: "dl_env \<Rightarrow> options \<Rightarrow> (go_error, string) result" where
  "resolveDownloadVersion env opts =
     (let version = TrimSpace (o_Version opts) in
      if \<not> latestVersionRequested version then Inr version
      else if o_Mirror opts \<noteq> [] then
        (case fetchLatestReleaseTag env (mirrorLatestReleaseURL (o_Mirror opts)) of
           Inr latest \<Rightarrow> Inr latest
         | Inl e \<Rightarrow> if version \<noteq> [] then Inl e else Inr DefaultMirrorVersion)
      else fetchLatestReleaseTag env DefaultLatestReleaseURL)"

section \<open>The checksum\<close>

definition isSHA256Hex :: "string \<Rightarrow> bool" where
  "isSHA256Hex s \<longleftrightarrow> length s = 64 \<and> list_all (\<lambda>c. hex_val c \<noteq> None) s"

text \<open>The first field of the first line that lists the asset.\<close>

definition listed_as :: "string \<Rightarrow> string \<Rightarrow> string option" where
  "listed_as assetName line =
     (case Fields line of
        [digest, entry] \<Rightarrow>
          (let name = TrimPrefix entry ''*'' in
           if name = assetName \<or> HasSuffix name (slash # assetName) then Some digest else None)
      | _ \<Rightarrow> None)"

fun find_checksum :: "string \<Rightarrow> string list \<Rightarrow> string option" where
  "find_checksum assetName [] = None"
| "find_checksum assetName (line # lines) =
     (case listed_as assetName line of
        Some digest \<Rightarrow> Some digest
      | None \<Rightarrow> find_checksum assetName lines)"

definition line_feed :: char where "line_feed = CHR 0x0A"

definition checksums_url :: "string \<Rightarrow> string \<Rightarrow> string" where
  "checksums_url base version = TrimSuffix base [slash] @ [slash] @ version @ ''/checksums.txt''"

definition fetchExpectedSha :: "dl_env \<Rightarrow> string \<Rightarrow> string \<Rightarrow> string \<Rightarrow> (go_error, string) result" where
  "fetchExpectedSha env base version assetName =
     (case httpGet env (checksums_url base version) of
        Inl e \<Rightarrow> Inl (Wrapped e [''fetch checksums'', version])
      | Inr stream \<Rightarrow>
          (case read_limited checksums_limit stream of
             Inl e \<Rightarrow> Inl e
           | Inr content \<Rightarrow>
               (case find_checksum assetName (split_on line_feed content) of
                  None \<Rightarrow> Inl (NewError ''not listed in checksums.txt'' [assetName, version])
                | Some digest \<Rightarrow>
                    (let sha = ToLower digest in
                     if isSHA256Hex sha then Inr sha
                     else Inl (Wrapped (Sentinel ErrInvalidChecksum) [assetName, digest])))))"

section \<open>Files\<close>

definition verifiedDownloadPath :: "string \<Rightarrow> string \<Rightarrow> string \<Rightarrow> string" where
  "verifiedDownloadPath dir assetName expectedSha = path_join [dir, expectedSha, assetName]"

text \<open>\<^verbatim>\<open>shaFile\<close>, and \<^verbatim>\<open>streamSha\<close> on the file it has opened.\<close>

definition streamSha :: "dl_env \<Rightarrow> string \<Rightarrow> file_node \<Rightarrow> (go_error, string) result" where
  "streamSha env path f =
     (case d_read env path of Some e \<Rightarrow> Inl e | None \<Rightarrow> Inr (sha256_hex (f_content f)))"

definition shaFile :: "dl_env \<Rightarrow> file_system \<Rightarrow> string \<Rightarrow> (go_error, string) result" where
  "shaFile env fs path =
     (case d_open_read env path of
        Some e \<Rightarrow> Inl e
      | None \<Rightarrow> (case fs path of None \<Rightarrow> Inl not_exist | Some f \<Rightarrow> streamSha env path f))"

text \<open>\<^verbatim>\<open>io.Copy\<close> into a file just truncated: what arrives in it and the error.\<close>

definition copy_body :: "dl_env \<Rightarrow> string \<times> go_error option \<Rightarrow> string \<times> go_error option" where
  "copy_body env stream =
     (case d_write env of
        Some (n, e) \<Rightarrow> if n < length (fst stream) then (take n (fst stream), Some e) else stream
      | None \<Rightarrow> stream)"

definition downloadFile :: "dl_env \<Rightarrow> string \<Rightarrow> string \<Rightarrow> file_system \<Rightarrow> go_error option \<times> file_system" where
  "downloadFile env url dest fs =
     (case httpGet env url of
        Inl e \<Rightarrow> (Some (Wrapped e [''get'', url]), fs)
      | Inr stream \<Rightarrow>
          (case d_open_write env of
             Some e \<Rightarrow> (Some e, fs)
           | None \<Rightarrow>
               (case copy_body env stream of
                  (content, Some e) \<Rightarrow> (Some (Wrapped e [''copy'', dest]), write_file dest content 420 fs)
                | (content, None) \<Rightarrow> (d_close env, write_file dest content 420 fs))))"

text \<open>\<^verbatim>\<open>os.CreateTemp\<close>: the first of the random names that does not exist yet.\<close>

fun create_temp :: "dl_env \<Rightarrow> string \<Rightarrow> string \<Rightarrow> string list \<Rightarrow> file_system
    \<Rightarrow> (go_error, string) result \<times> file_system" where
  "create_temp env dir assetName [] fs = (Inl (LibError ''file exists''), fs)"
| "create_temp env dir assetName (r # rs) fs =
     (case d_CreateTemp env of
        Some e \<Rightarrow> (Inl e, fs)
      | None \<Rightarrow>
          (let path = path_join [dir, assetName @ ''.'' @ r @ ''.tmp''] in
           if fs path \<noteq> None then create_temp env dir assetName rs fs
           else (Inr path, fs(path \<mapsto> \<lparr>f_content = [], f_mode = 384\<rparr>))))"

definition remove_file :: "dl_env \<Rightarrow> string \<Rightarrow> file_system \<Rightarrow> file_system" where
  "remove_file env path fs = (if d_remove_ok env then map_remove fs path else fs)"

definition chmod_file :: "dl_env \<Rightarrow> string \<Rightarrow> nat \<Rightarrow> file_system \<Rightarrow> file_system" where
  "chmod_file env path mode fs =
     (if d_chmod_ok env then fs(path := map_option (\<lambda>f. f\<lparr>f_mode := mode\<rparr>) (fs path)) else fs)"

section \<open>The download\<close>

definition asset_url :: "string \<Rightarrow> string \<Rightarrow> string \<Rightarrow> string" where
  "asset_url base version assetName = TrimSuffix base [slash] @ [slash] @ version @ [slash] @ assetName"

text \<open>From the created temporary file on: fetch, hash, compare, make executable, move into
  place.\<close>

definition install_download ::
  "dl_env \<Rightarrow> assetKind \<Rightarrow> string \<Rightarrow> string \<Rightarrow> string \<Rightarrow> string \<Rightarrow> string \<Rightarrow> file_system
    \<Rightarrow> (go_error, string) result \<times> file_system" where
  "install_download env kind url assetName expectedSha cachedPath tmpPath fs =
     (case downloadFile env url tmpPath fs of
        (Some e, fs1) \<Rightarrow> (Inl e, remove_file env tmpPath fs1)
      | (None, fs1) \<Rightarrow>
          (case shaFile env fs1 tmpPath of
             Inl e \<Rightarrow> (Inl e, remove_file env tmpPath fs1)
           | Inr gotSha \<Rightarrow>
               if gotSha \<noteq> expectedSha then
                 (Inl (NewError ''sha256 mismatch'' [assetName, gotSha, expectedSha]), remove_file env tmpPath fs1)
               else
                 (let fs2 = (if kind = assetKindBinary then chmod_file env tmpPath 493 fs1 else fs1) in
                  case d_Rename env of
                    Some e \<Rightarrow> (Inl (Wrapped e [''rename'', cachedPath]), remove_file env tmpPath fs2)
                  | None \<Rightarrow> (Inr cachedPath, rename_file tmpPath cachedPath fs2))))"

definition fetch_into_cache ::
  "dl_env \<Rightarrow> assetKind \<Rightarrow> string \<Rightarrow> string \<Rightarrow> string \<Rightarrow> string \<Rightarrow> file_system
    \<Rightarrow> (go_error, string) result \<times> file_system" where
  "fetch_into_cache env kind url assetName expectedSha cachedPath fs =
     (if shaFile env fs cachedPath = Inr expectedSha then (Inr cachedPath, fs)
      else case d_MkdirAll env (path_dir cachedPath) of
        Some e \<Rightarrow> (Inl (Wrapped e [''mkdir cache'']), fs)
      | None \<Rightarrow>
          (case create_temp env (path_dir cachedPath) assetName (d_temp_names env) fs of
             (Inl e, fs1) \<Rightarrow> (Inl (Wrapped e [''create temp download'']), fs1)
           | (Inr tmpPath, fs1) \<Rightarrow>
               install_download env kind url assetName expectedSha cachedPath tmpPath fs1))"

definition download_base :: "options \<Rightarrow> string" where
  "download_base opts = (if o_Mirror opts = [] then DefaultDownloadBase else o_Mirror opts)"

definition downloadAsset ::
  "dl_env \<Rightarrow> options \<Rightarrow> assetKind \<Rightarrow> file_system \<Rightarrow> (go_error, string) result \<times> file_system" where
  "downloadAsset env opts kind fs =
     (case assetFor kind (d_GOOS env) (d_GOARCH env) of
        Inl e \<Rightarrow> (Inl e, fs)
      | Inr assetName \<Rightarrow>
          (case resolveDownloadVersion env opts of
             Inl e \<Rightarrow> (Inl e, fs)
           | Inr version \<Rightarrow>
               (case d_UserCacheDir env of
                  Inl e \<Rightarrow> (Inl (Wrapped e [''locate cache'']), fs)
                | Inr cacheDir \<Rightarrow>
                    (let base = download_base opts;
                         dir = path_join [cacheDir, ''vialite'', version]
                     in case fetchExpectedSha env base version assetName of
                          Inl e \<Rightarrow> (Inl e, fs)
                        | Inr expectedSha \<Rightarrow>
                            fetch_into_cache env kind (asset_url base version assetName) assetName
                              expectedSha (verifiedDownloadPath dir assetName expectedSha) fs))))"

end
