(* ===== verification/DownloadProps.thy ===== *)
theory DownloadProps
  imports Download
begin

text \<open>
  What the download guarantees: the file behind a path it hands out has the checksum the
  release lists, no other file is touched, failures leave nothing behind, a second request
  is answered from the cache, and the path stays inside the cache directory as long as the
  version is an ordinary file name.
\<close>

section \<open>The single operations\<close>

declare downloadFile_def [io_simps] httpGet_def [io_simps] read_limited_def [io_simps] copy_body_def [io_simps]
  shaFile_def [io_simps] streamSha_def [io_simps] fetchLatestReleaseTag_def [io_simps]

lemma create_temp_ok:
  "create_temp env dir a rs fs = (Inr p, fs1) \<Longrightarrow>
     fs p = None \<and> fs1 = fs(p \<mapsto> \<lparr>f_content = [], f_mode = 384\<rparr>)"
  by (induction env dir a rs fs rule: create_temp.induct)
    (auto simp: Let_def split: option.splits if_splits)

lemma create_temp_failed: "create_temp env dir a rs fs = (Inl e, fs1) \<Longrightarrow> fs1 = fs"
  by (induction env dir a rs fs rule: create_temp.induct)
    (auto simp: Let_def split: option.splits if_splits)

lemma downloadFile_other: "downloadFile env url dest fs = (e, fs1) \<Longrightarrow> q \<noteq> dest \<Longrightarrow> fs1 q = fs q"
  by (auto simp: downloadFile_def split: sum.splits option.splits prod.splits)

lemma shaFile_ok:
  "shaFile env fs p = Inr sha \<Longrightarrow> \<exists>f. fs p = Some f \<and> sha256_hex (f_content f) = sha"
  by (auto simp: shaFile_def streamSha_def split: option.splits)

lemma shaFile_readable:
  "d_open_read env p = None \<Longrightarrow> d_read env p = None \<Longrightarrow> fs p = Some f
    \<Longrightarrow> shaFile env fs p = Inr (sha256_hex (f_content f))"
  by (simp add: io_simps)

lemma chmod_file_other [simp]: "q \<noteq> p \<Longrightarrow> chmod_file env p m fs q = fs q"
  by (simp add: chmod_file_def)

lemma chmod_file_same:
  "fs p = Some f \<Longrightarrow> \<exists>g. chmod_file env p m fs p = Some g \<and> f_content g = f_content f"
  by (simp add: chmod_file_def)

lemma remove_file_other [simp]: "q \<noteq> p \<Longrightarrow> remove_file env p fs q = fs q"
  by (simp add: remove_file_def)

lemma remove_file_same [simp]: "d_remove_ok env \<Longrightarrow> remove_file env p fs p = None"
  by (simp add: remove_file_def)

text \<open>The installation of a download: a failure touches the temporary file only, a success
  leaves a file with the expected checksum under the cached path and no temporary one.\<close>

lemma install_failed:
  assumes "install_download env kind url a sha cp tmp fs = (Inl e, fs')"
  shows "\<forall>q. q \<noteq> tmp \<longrightarrow> fs' q = fs q" and "d_remove_ok env \<Longrightarrow> fs' tmp = None"
  using assms
  by (auto simp: install_download_def Let_def dest: downloadFile_other
      split: prod.splits option.splits sum.splits if_splits)

lemma install_ok:
  assumes "install_download env kind url a sha cp tmp fs = (Inr p, fs')"
  shows "p = cp" and "\<exists>f. fs' cp = Some f \<and> sha256_hex (f_content f) = sha"
    and "\<forall>q. q \<noteq> tmp \<and> q \<noteq> cp \<longrightarrow> fs' q = fs q" and "tmp = cp \<or> fs' tmp = None"
proof -
  obtain fs1 where d: "downloadFile env url tmp fs = (None, fs1)" "shaFile env fs1 tmp = Inr sha"
    and r: "p = cp" "d_Rename env = None"
      "fs' = rename_file tmp cp (if kind = assetKindBinary then chmod_file env tmp 493 fs1 else fs1)"
    using assms by (auto simp: install_download_def Let_def split: prod.splits option.splits sum.splits if_splits)
  let ?fs2 = "if kind = assetKindBinary then chmod_file env tmp 493 fs1 else fs1"
  obtain f where f: "fs1 tmp = Some f" "sha256_hex (f_content f) = sha" using shaFile_ok [OF d(2)] by blast
  then obtain g where g: "?fs2 tmp = Some g" "f_content g = f_content f"
    using chmod_file_same [of fs1 tmp f env 493] by (cases "kind = assetKindBinary") auto
  show "p = cp" by (rule r(1))
  show "\<exists>f. fs' cp = Some f \<and> sha256_hex (f_content f) = sha"
    using g f(2) unfolding r(3) by (simp add: rename_file_def)
  show "\<forall>q. q \<noteq> tmp \<and> q \<noteq> cp \<longrightarrow> fs' q = fs q"
    using downloadFile_other [OF d(1)] unfolding r(3) by (auto simp: rename_file_def)
  show "tmp = cp \<or> fs' tmp = None" unfolding r(3) by (simp add: rename_file_def)
qed

lemma fetch_into_cache_cases:
  obtains (hit) "shaFile env fs cp = Inr sha" "fetch_into_cache env kind url a sha cp fs = (Inr cp, fs)"
  | (early) e where "fetch_into_cache env kind url a sha cp fs = (Inl e, fs)"
  | (miss) tmp fs1 where "create_temp env (path_dir cp) a (d_temp_names env) fs = (Inr tmp, fs1)"
      "fetch_into_cache env kind url a sha cp fs = install_download env kind url a sha cp tmp fs1"
proof -
  consider (1) "shaFile env fs cp = Inr sha"
    | (2) e where "shaFile env fs cp \<noteq> Inr sha" "d_MkdirAll env (path_dir cp) = Some e"
    | (3) "shaFile env fs cp \<noteq> Inr sha" "d_MkdirAll env (path_dir cp) = None"
    by (cases "d_MkdirAll env (path_dir cp)") auto
  then show ?thesis
  proof cases
  case 1
  then show ?thesis by (intro hit) (simp_all add: fetch_into_cache_def)
next
  case 2
  then show ?thesis by (intro early) (simp add: fetch_into_cache_def)
next
  case 3
  obtain r fs1 where c: "create_temp env (path_dir cp) a (d_temp_names env) fs = (r, fs1)" by fastforce
  show ?thesis
  proof (cases r)
    case (Inl e)
    with c have "fs1 = fs" by (simp add: create_temp_failed)
    with Inl 3 c show ?thesis by (intro early) (simp add: fetch_into_cache_def)
  next
    case (Inr tmp)
    with 3 c show ?thesis by (intro miss) (simp_all add: fetch_into_cache_def)
  qed
qed
qed

lemma fetch_into_cache_ok:
  assumes "fetch_into_cache env kind url a sha cp fs = (Inr p, fs')"
  shows "p = cp" and "\<exists>f. fs' cp = Some f \<and> sha256_hex (f_content f) = sha" and "\<forall>q. q \<noteq> cp \<longrightarrow> fs' q = fs q"
proof -
  have "p = cp \<and> (\<exists>f. fs' cp = Some f \<and> sha256_hex (f_content f) = sha) \<and> (\<forall>q. q \<noteq> cp \<longrightarrow> fs' q = fs q)"
  proof (cases rule: fetch_into_cache_cases [of env fs cp sha kind url a])
    case hit
    with assms shaFile_ok [OF hit(1)] show ?thesis by simp
  next
    case early
    with assms show ?thesis by simp
  next
    case (miss tmp fs1)
    note t = create_temp_ok [OF miss(1)] and i = install_ok [OF assms [unfolded miss(2)]]
    have "fs' q = fs q" if "q \<noteq> cp" for q
      using t i(3,4) that by (cases "q = tmp") auto
    with i(1,2) show ?thesis by blast
  qed
  then show "p = cp" and "\<exists>f. fs' cp = Some f \<and> sha256_hex (f_content f) = sha" and "\<forall>q. q \<noteq> cp \<longrightarrow> fs' q = fs q"
    by auto
qed

lemma fetch_into_cache_failed:
  assumes "fetch_into_cache env kind url a sha cp fs = (Inl e, fs')"
  shows "fs q = Some f \<Longrightarrow> fs' q = Some f" and "d_remove_ok env \<Longrightarrow> fs' = fs"
proof -
  have "(fs q = Some f \<longrightarrow> fs' q = Some f) \<and> (d_remove_ok env \<longrightarrow> fs' = fs)"
  proof (cases rule: fetch_into_cache_cases [of env fs cp sha kind url a])
    case hit
    with assms show ?thesis by simp
  next
    case early
    with assms show ?thesis by simp
  next
    case (miss tmp fs1)
    note t = create_temp_ok [OF miss(1)] and i = install_failed [OF assms [unfolded miss(2)]]
    have "fs' r = fs r" if "d_remove_ok env" for r
      using t i(1) i(2) [OF that] by (cases "r = tmp") auto
    then show ?thesis using t i(1) by (cases "q = tmp") auto
  qed
  then show "fs q = Some f \<Longrightarrow> fs' q = Some f" and "d_remove_ok env \<Longrightarrow> fs' = fs" by auto
qed

section \<open>The request as a whole\<close>

text \<open>What a request asks for: the asset of the platform, its version, the cache directory
  and the listed checksum.\<close>

record asset_request =
  q_asset :: string
  q_version :: string
  q_cache :: string
  q_sha :: string

definition request_of :: "dl_env \<Rightarrow> options \<Rightarrow> assetKind \<Rightarrow> asset_request \<Rightarrow> bool" where
  "request_of env opts kind q \<longleftrightarrow>
     assetFor kind (d_GOOS env) (d_GOARCH env) = Inr (q_asset q)
     \<and> resolveDownloadVersion env opts = Inr (q_version q)
     \<and> d_UserCacheDir env = Inr (q_cache q)
     \<and> fetchExpectedSha env (download_base opts) (q_version q) (q_asset q) = Inr (q_sha q)"

definition cached_path :: "asset_request \<Rightarrow> string" where
  "cached_path q =
     verifiedDownloadPath (path_join [q_cache q, ''vialite'', q_version q]) (q_asset q) (q_sha q)"

lemma request_of_unique: "request_of env opts kind q \<Longrightarrow> request_of env opts kind q' \<Longrightarrow> q' = q"
  by (cases q; cases q') (auto simp: request_of_def)

lemma downloadAsset_request:
  assumes "request_of env opts kind q"
  shows "downloadAsset env opts kind fs =
     fetch_into_cache env kind (asset_url (download_base opts) (q_version q) (q_asset q)) (q_asset q)
       (q_sha q) (cached_path q) fs"
  using assms by (simp add: request_of_def downloadAsset_def cached_path_def Let_def)

lemma downloadAsset_no_request:
  assumes "\<nexists>q. request_of env opts kind q"
  shows "\<exists>e. downloadAsset env opts kind fs = (Inl e, fs)"
proof (rule ccontr)
  assume no: "\<nexists>e. downloadAsset env opts kind fs = (Inl e, fs)"
  then obtain a v c sha where "assetFor kind (d_GOOS env) (d_GOARCH env) = Inr a"
      "resolveDownloadVersion env opts = Inr v" "d_UserCacheDir env = Inr c"
      "fetchExpectedSha env (download_base opts) v a = Inr sha"
    by (auto simp: downloadAsset_def Let_def split: sum.splits)
  then have "request_of env opts kind \<lparr>q_asset = a, q_version = v, q_cache = c, q_sha = sha\<rparr>"
    by (simp add: request_of_def)
  with assms show False by blast
qed

lemma downloadAsset_ok:
  assumes "downloadAsset env opts kind fs = (Inr p, fs')"
  shows "\<exists>q f. request_of env opts kind q \<and> p = cached_path q \<and> fs' p = Some f
      \<and> sha256_hex (f_content f) = q_sha q \<and> (\<forall>r. r \<noteq> p \<longrightarrow> fs' r = fs r)"
proof -
  obtain q where q: "request_of env opts kind q"
    using downloadAsset_no_request [of env opts kind fs] assms by force
  from fetch_into_cache_ok [OF assms [unfolded downloadAsset_request [OF q]]] q show ?thesis by blast
qed

lemma downloadAsset_failed:
  assumes "downloadAsset env opts kind fs = (Inl e, fs')"
  shows "(fs r = Some f \<longrightarrow> fs' r = Some f) \<and> (d_remove_ok env \<longrightarrow> fs' = fs)"
proof (cases "\<exists>q. request_of env opts kind q")
  case True
  then obtain q where q: "request_of env opts kind q" by blast
  from fetch_into_cache_failed [OF assms [unfolded downloadAsset_request [OF q]]] show ?thesis by blast
next
  case False
  then show ?thesis using downloadAsset_no_request [OF False, of fs] assms by auto
qed

section \<open>Checksums\<close>

lemma lower_hex_facts:
  assumes "lower_hex c"
  shows "lower_char c = c" and "hex_val c \<noteq> None" and "\<not> is_space c" and "c \<noteq> slash" and "c \<noteq> CHR ''.''"
  using assms
  by (auto simp: lower_hex_def lower_char_def hex_val_def digit_val_def is_space_def slash_def Let_def)

lemma lower_hex_if:
  assumes "hex_val (lower_char c) \<noteq> None"
  shows "lower_hex (lower_char c)"
proof -
  have "\<not> (65 \<le> (of_char (lower_char c) :: nat) \<and> (of_char (lower_char c) :: nat) \<le> 90)"
    by (auto simp: lower_char_def Let_def)
  with assms show ?thesis
    by (auto simp: lower_hex_def hex_val_def digit_val_def Let_def split: if_splits)
qed

lemma sha256_hex_is_lower [simp]: "ToLower (sha256_hex s) = sha256_hex s"
  using sha256_hex_lower [of s] lower_hex_facts(1)
  by (simp add: ToLower_def list_all_iff map_idI)

lemma sha256_hex_is_hex [simp]: "isSHA256Hex (sha256_hex s)"
  using sha256_hex_lower [of s] lower_hex_facts(2) sha256_hex_length [of s]
  by (simp add: isSHA256Hex_def list_all_iff)

lemma sha256_hex_word: "word_ok (sha256_hex s)"
proof -
  have "sha256_hex s \<noteq> []" using sha256_hex_length [of s] by (metis list.size(3) numeral_neq_zero zero_neq_numeral)
  then show ?thesis using sha256_hex_lower [of s] lower_hex_facts(3) by (auto simp: word_ok_def list_all_iff)
qed

lemma fetchExpectedSha_type:
  assumes "fetchExpectedSha env base v a = Inr sha"
  shows "length sha = 64 \<and> list_all lower_hex sha"
proof -
  obtain d where "sha = ToLower d" "isSHA256Hex (ToLower d)"
    using assms by (auto simp: fetchExpectedSha_def Let_def split: sum.splits option.splits if_splits)
  then show ?thesis using lower_hex_if by (auto simp: isSHA256Hex_def ToLower_def list_all_iff)
qed

lemma plain_elem_sha:
  assumes "length sha = 64" and "list_all lower_hex sha"
  shows "plain_elem sha"
proof -
  have "sha \<noteq> []" "sha \<noteq> ''.''" "sha \<noteq> ''..''" using assms(1) by auto
  moreover have "slash \<notin> set sha" using assms(2) lower_hex_facts(4) by (auto simp: list_all_iff)
  ultimately show ?thesis by (simp add: plain_elem_def)
qed

lemma plain_elem_asset: "assetFor kind os arch = Inr a \<Longrightarrow> plain_elem a"
  by (auto simp: assetFor_def plain_elem_def slash_def split: if_splits)

text \<open>The listing a release publishes: one line per file.\<close>

definition checksum_line :: "string \<times> string \<Rightarrow> string" where
  "checksum_line e = sha256_hex (snd e) @ ''  '' @ fst e"

definition checksums_text :: "(string \<times> string) list \<Rightarrow> string" where
  "checksums_text rel = concat (map (\<lambda>e. checksum_line e @ [line_feed]) rel)"

text \<open>A file name as releases use them.\<close>

definition asset_name :: "string \<Rightarrow> bool" where
  "asset_name n \<longleftrightarrow> word_ok n \<and> slash \<notin> set n \<and> hd n \<noteq> CHR ''*''"

lemma Fields_space: "Fields (CHR '' '' # xs) = Fields xs"
  by (simp add: Fields_def runs_def is_space_def)

lemma Fields_checksum_line: "word_ok n \<Longrightarrow> Fields (checksum_line (n, c)) = [sha256_hex c, n]"
  by (simp add: checksum_line_def Fields_Cons sha256_hex_word Fields_space Fields_word)

lemma listed_as_line:
  assumes "asset_name n"
  shows "listed_as a (checksum_line (n, c)) = (if n = a then Some (sha256_hex c) else None)"
proof -
  have "TrimPrefix n ''*'' = n"
    using assms by (cases n) (auto simp: asset_name_def word_ok_def TrimPrefix_def HasPrefix_def)
  moreover have "\<not> HasSuffix n (slash # a)" using assms by (auto simp: asset_name_def HasSuffix_iff)
  ultimately show ?thesis
    using assms by (simp add: listed_as_def Fields_checksum_line asset_name_def)
qed

lemma line_feed_free: "asset_name n \<Longrightarrow> line_feed \<notin> set (checksum_line (n, c))"
  using sha256_hex_word [of c]
  by (auto simp: checksum_line_def asset_name_def word_ok_def line_feed_def is_space_def)

lemma find_checksum_listing:
  "list_all (\<lambda>e. asset_name (fst e)) rel \<Longrightarrow>
     find_checksum a (split_on line_feed (checksums_text rel)) = map_option sha256_hex (map_of rel a)"
proof (induction rel)
  case Nil
  then show ?case by (simp add: checksums_text_def split_on_def listed_as_def Fields_def runs_def)
next
  case (Cons e rel)
  obtain n c where e: "e = (n, c)" by (cases e)
  have "checksums_text (e # rel) = checksum_line (n, c) @ line_feed # checksums_text rel"
    by (simp add: checksums_text_def e)
  with Cons e show ?case by (simp add: split_on_append line_feed_free listed_as_line)
qed

lemma fetchExpectedSha_listing:
  assumes "d_http env (checksums_url base v) = Response 200 (checksums_text rel) None"
    and "list_all (\<lambda>e. asset_name (fst e)) rel" and "length (checksums_text rel) < checksums_limit"
    and "map_of rel a = Some c"
  shows "fetchExpectedSha env base v a = Inr (sha256_hex c)"
  using assms find_checksum_listing [OF assms(2), of a]
  by (simp add: fetchExpectedSha_def httpGet_def read_limited_def Let_def)

section \<open>A download that meets no failure\<close>

definition no_failures :: "dl_env \<Rightarrow> bool" where
  "no_failures env \<longleftrightarrow>
     d_MkdirAll env = (\<lambda>_. None) \<and> d_CreateTemp env = None \<and> d_open_write env = None
     \<and> d_write env = None \<and> d_close env = None \<and> d_open_read env = (\<lambda>_. None)
     \<and> d_read env = (\<lambda>_. None) \<and> d_Rename env = None"

definition temp_path :: "string \<Rightarrow> string \<Rightarrow> string \<Rightarrow> string" where
  "temp_path dir a r = path_join [dir, a @ ''.'' @ r @ ''.tmp'']"

lemma create_temp_succeeds:
  assumes "d_CreateTemp env = None"
  shows "list_ex (\<lambda>r. fs (temp_path dir a r) = None) rs \<Longrightarrow> \<exists>p fs1. create_temp env dir a rs fs = (Inr p, fs1)"
  using assms by (induction rs) (auto simp: temp_path_def Let_def)

lemma fetch_into_cache_succeeds:
  assumes "no_failures env" and "d_http env url = Response 200 c None"
    and "list_ex (\<lambda>r. fs (temp_path (path_dir cp) a r) = None) (d_temp_names env)"
  shows "\<exists>fs'. fetch_into_cache env kind url a (sha256_hex c) cp fs = (Inr cp, fs')"
proof -
  obtain tmp fs1 where t: "create_temp env (path_dir cp) a (d_temp_names env) fs = (Inr tmp, fs1)"
    using create_temp_succeeds [of env, OF _ assms(3)] assms(1) by (metis no_failures_def)
  let ?fs2 = "write_file tmp c 420 fs1"
  have "downloadFile env url tmp fs1 = (None, ?fs2)"
    using assms(1,2) by (simp add: io_simps no_failures_def)
  moreover have "shaFile env ?fs2 tmp = Inr (sha256_hex c)"
    using write_file_content [of tmp c 420 fs1] assms(1) by (auto simp: io_simps no_failures_def)
  ultimately show ?thesis
    using t assms(1) by (simp add: fetch_into_cache_def install_download_def Let_def no_failures_def)
qed

section \<open>Properties\<close>

text \<open>C5: Whatever the network, the mirror and the file system do, a path that
  \<open>downloadAsset\<close> returns leads to a file whose SHA-256 is the checksum the release lists
  for exactly the asset of this platform and the resolved version; no other path has
  changed.\<close>

theorem downloaded_file_is_verified:
  assumes "downloadAsset env opts kind fs = (Inr p, fs')"
  shows "\<exists>a v sha f. assetFor kind (d_GOOS env) (d_GOARCH env) = Inr a \<and> resolveDownloadVersion env opts = Inr v
      \<and> fetchExpectedSha env (download_base opts) v a = Inr sha
      \<and> fs' p = Some f \<and> sha256_hex (f_content f) = sha \<and> (\<forall>r. r \<noteq> p \<longrightarrow> fs' r = fs r)"
  using downloadAsset_ok [OF assms] by (auto simp: request_of_def)

text \<open>C15: A download that fails, at whatever point, has not altered any file that existed;
  and if temporary files can be removed, it has left none behind.\<close>

theorem failed_download_leaves_nothing:
  assumes "downloadAsset env opts kind fs = (Inl e, fs')"
  shows "(fs r = Some f \<longrightarrow> fs' r = Some f) \<and> (d_remove_ok env \<longrightarrow> fs' = fs)"
  by (rule downloadAsset_failed [OF assms])

text \<open>C13: Once downloaded, an asset is served from the cache: a later request that resolves
  to the same asset, version and checksum, under whatever asset server, returns the same
  path and leaves the files as they are, as long as the file can be read.\<close>

theorem second_download_is_cached:
  assumes "downloadAsset env opts kind fs = (Inr p, fs')"
    and "d_GOOS env' = d_GOOS env" and "d_GOARCH env' = d_GOARCH env" and "d_UserCacheDir env' = d_UserCacheDir env"
    and "resolveDownloadVersion env' opts' = resolveDownloadVersion env opts"
    and "\<forall>v a. fetchExpectedSha env' (download_base opts') v a = fetchExpectedSha env (download_base opts) v a"
    and "d_open_read env' p = None" and "d_read env' p = None"
  shows "downloadAsset env' opts' kind fs' = (Inr p, fs')"
proof -
  obtain q f where q: "request_of env opts kind q" "p = cached_path q" "fs' p = Some f" "sha256_hex (f_content f) = q_sha q"
    using downloadAsset_ok [OF assms(1)] by blast
  have q': "request_of env' opts' kind q" using q(1) assms(2-6) by (simp add: request_of_def)
  show ?thesis using q(2-4) shaFile_readable [of env' p fs' f, OF assms(7,8) q(3)]
    by (simp add: downloadAsset_request [OF q'] fetch_into_cache_def)
qed

text \<open>A checksum the program accepts is a well-formed digest: 64 lower-case hexadecimal
  digits, so that comparing it with a computed digest as text compares the digests, and it
  is an ordinary file name.\<close>

lemma listed_checksum_is_a_digest:
  assumes "fetchExpectedSha env base v a = Inr sha"
  shows "length sha = 64 \<and> list_all lower_hex sha \<and> plain_elem sha"
  using fetchExpectedSha_type [OF assms] plain_elem_sha by blast

text \<open>C14: A consistent release is installed: when the mirror serves a listing of the digests
  of the release's files and the file itself, the platform is supported, and no system call
  fails, \<open>downloadAsset\<close> returns a path, and the file there has the digest of the content
  that was published.\<close>

theorem consistent_release_is_installed:
  assumes "assetFor kind (d_GOOS env) (d_GOARCH env) = Inr a" and "resolveDownloadVersion env opts = Inr v"
    and "d_UserCacheDir env = Inr cache"
    and "d_http env (checksums_url (download_base opts) v) = Response 200 (checksums_text rel) None"
    and "list_all (\<lambda>e. asset_name (fst e)) rel" and "length (checksums_text rel) < checksums_limit"
    and "map_of rel a = Some c" and "d_http env (asset_url (download_base opts) v a) = Response 200 c None"
    and "no_failures env"
    and "list_ex (\<lambda>r. fs (temp_path (path_dir (verifiedDownloadPath (path_join [cache, ''vialite'', v]) a (sha256_hex c))) a r) = None)
           (d_temp_names env)"
  shows "\<exists>p fs' f. downloadAsset env opts kind fs = (Inr p, fs') \<and> fs' p = Some f
      \<and> sha256_hex (f_content f) = sha256_hex c"
proof -
  define q where "q = \<lparr>q_asset = a, q_version = v, q_cache = cache, q_sha = sha256_hex c\<rparr>"
  have q: "request_of env opts kind q"
    using assms(1-3) fetchExpectedSha_listing [OF assms(4-7)] by (simp add: request_of_def q_def)
  obtain fs' where d: "downloadAsset env opts kind fs = (Inr (cached_path q), fs')"
    using fetch_into_cache_succeeds [OF assms(9,8,10)] downloadAsset_request [OF q, of fs]
    by (auto simp: q_def cached_path_def)
  from downloadAsset_ok [OF this] request_of_unique [OF q] show ?thesis
    by (metis d q_def asset_request.select_convs(4))
qed

text \<open>C29: A mirror that answers its latest-release endpoint with a tag is followed: the
  metadata \<open>{"tag_name":tag}\<close>, in whatever spelling of the tag as JSON text, resolves to the
  tag without surrounding blanks.\<close>

theorem mirror_tag_is_followed:
  assumes "o_Mirror opts \<noteq> []" and "latestVersionRequested (TrimSpace (o_Version opts))"
    and "d_http env (mirrorLatestReleaseURL (o_Mirror opts)) = Response 200 (metadata_text tag_name tag) None"
    and "ascii tag" and "TrimSpace tag \<noteq> []" and "length (metadata_text tag_name tag) < metadata_limit"
  shows "resolveDownloadVersion env opts = Inr (TrimSpace tag)"
proof -
  have "ascii tag_name" by (simp add: tag_name_def ascii_def)
  then have "unmarshal_field tag_name (metadata_text tag_name tag) = Inr tag"
    using parse_metadata_text [of tag_name tag] assms(4) by (simp add: unmarshal_field_def)
  then have "fetchLatestReleaseTag env (mirrorLatestReleaseURL (o_Mirror opts)) = Inr (TrimSpace tag)"
    using assms(3,5,6) by (simp add: io_simps Let_def)
  with assms(1,2) show ?thesis by (simp add: resolveDownloadVersion_def Let_def)
qed

text \<open>C17: The cache directory is not left: when the version is an ordinary file name, the
  returned path is the cache directory followed by \<open>vialite\<close>, the version, the checksum and
  the asset, so two artifacts or two checksums never share a path.\<close>

theorem cached_path_is_in_the_cache:
  assumes "downloadAsset env opts kind fs = (Inr p, fs')" and "d_UserCacheDir env = Inr (abs_path cs)"
    and "cs \<noteq> []" and "list_all plain_elem cs" and "resolveDownloadVersion env opts = Inr v" and "plain_elem v"
  shows "\<exists>a sha. assetFor kind (d_GOOS env) (d_GOARCH env) = Inr a
      \<and> fetchExpectedSha env (download_base opts) v a = Inr sha \<and> p = abs_path (cs @ [''vialite'', v, sha, a])"
proof -
  obtain q where q: "request_of env opts kind q" "p = cached_path q" using downloadAsset_ok [OF assms(1)] by blast
  have f: "q_version q = v" "q_cache q = abs_path cs" using q(1) assms(2,5) by (simp_all add: request_of_def)
  have a: "plain_elem (q_asset q)" using q(1) plain_elem_asset by (auto simp: request_of_def)
  have s: "plain_elem (q_sha q)"
    using q(1) fetchExpectedSha_type plain_elem_sha by (auto simp: request_of_def)
  have "plain_elem ''vialite''" by (simp add: text_simps)
  then have "path_join [abs_path cs, ''vialite'', v] = abs_path (cs @ [''vialite'', v])"
    using assms(3,4,6) by (intro path_join_abs) simp_all
  moreover have "path_join [abs_path (cs @ [''vialite'', v]), q_sha q, q_asset q]
      = abs_path ((cs @ [''vialite'', v]) @ [q_sha q, q_asset q])"
    using assms(3,4,6) a s \<open>plain_elem ''vialite''\<close> by (intro path_join_abs) simp_all
  ultimately have "p = abs_path (cs @ [''vialite'', v, q_sha q, q_asset q])"
    by (simp add: q(2) cached_path_def verifiedDownloadPath_def f)
  with q(1) f show ?thesis by (auto simp: request_of_def)
qed

section \<open>A concrete release\<close>

definition demo_asset :: string where "demo_asset = ''vialite-linux-amd64''"
definition demo_mirror :: string where "demo_mirror = ''http://mirror''"
definition demo_release :: "(string \<times> string) list" where
  "demo_release = [(''libvialite-linux-amd64.so'', ''library''), (demo_asset, ''program'')]"

definition demo_fetch_opts :: options where
  "demo_fetch_opts = (sample_options [])\<lparr>o_Version := ''v1'', o_Mirror := demo_mirror\<rparr>"

definition demo_http :: "string \<Rightarrow> http_reply" where
  "demo_http url =
     (if url = checksums_url demo_mirror ''v1'' then Response 200 (checksums_text demo_release) None
      else if url = asset_url demo_mirror ''v1'' demo_asset then Response 200 ''program'' None
      else if url = mirrorLatestReleaseURL demo_mirror then Response 200 (metadata_text tag_name '' v2'') None
      else NoResponse (LibError ''no route''))"

definition demo_dl :: dl_env where
  "demo_dl = \<lparr>d_GOOS = ''linux'', d_GOARCH = ''amd64'', d_UserCacheDir = Inr (abs_path [''home'', ''.cache'']),
     d_http = demo_http, d_MkdirAll = (\<lambda>_. None), d_temp_names = [''1''], d_CreateTemp = None,
     d_open_write = None, d_write = None, d_close = None, d_open_read = (\<lambda>_. None), d_read = (\<lambda>_. None),
     d_chmod_ok = True, d_Rename = None, d_remove_ok = True\<rparr>"

lemma demo_urls:
  "checksums_url demo_mirror ''v1'' \<noteq> asset_url demo_mirror ''v1'' demo_asset"
  "mirrorLatestReleaseURL demo_mirror \<noteq> checksums_url demo_mirror ''v1''"
  "mirrorLatestReleaseURL demo_mirror \<noteq> asset_url demo_mirror ''v1'' demo_asset"
  by code_simp+

lemma demo_mirror_simps [simp]: "o_Mirror demo_fetch_opts = demo_mirror" "demo_mirror \<noteq> []"
  "download_base demo_fetch_opts = demo_mirror" "o_Version demo_fetch_opts = ''v1''"
  by (simp_all add: demo_fetch_opts_def demo_mirror_def download_base_def)

lemma demo_version: "resolveDownloadVersion env demo_fetch_opts = Inr ''v1''"
proof -
  have "\<not> latestVersionRequested (TrimSpace ''v1'')" "TrimSpace ''v1'' = ''v1''" by code_simp+
  then show ?thesis by (simp add: resolveDownloadVersion_def Let_def)
qed

lemma demo_platform: "assetFor assetKindBinary (d_GOOS demo_dl) (d_GOARCH demo_dl) = Inr demo_asset"
  by (simp add: demo_dl_def assetFor_def demo_asset_def assetKindBinary_def)

lemma demo_release_names: "list_all (\<lambda>e. asset_name (fst e)) demo_release"
  by (simp add: demo_release_def demo_asset_def asset_name_def word_ok_def text_simps)

lemma demo_listing: "length (checksums_text demo_release) < checksums_limit" "map_of demo_release demo_asset = Some ''program''"
  by (simp_all add: demo_release_def checksums_text_def checksum_line_def sha256_hex_length demo_asset_def checksums_limit_def)

lemma demo_no_failures: "no_failures demo_dl"
  by (simp add: no_failures_def demo_dl_def)

lemma demo_answers:
  "d_http demo_dl (checksums_url demo_mirror ''v1'') = Response 200 (checksums_text demo_release) None"
  "d_http demo_dl (asset_url demo_mirror ''v1'' demo_asset) = Response 200 ''program'' None"
  "d_http demo_dl (mirrorLatestReleaseURL demo_mirror) = Response 200 (metadata_text tag_name '' v2'') None"
  using demo_urls by (simp_all add: demo_dl_def demo_http_def)

lemma demo_cache: "d_UserCacheDir demo_dl = Inr (abs_path [''home'', ''.cache''])"
  by (simp add: demo_dl_def)

lemma demo_temp: "list_ex (\<lambda>r. (Map.empty :: file_system) (temp_path d a r) = None) (d_temp_names demo_dl)"
  by (simp add: demo_dl_def)

lemma demo_expected: "fetchExpectedSha demo_dl demo_mirror ''v1'' demo_asset = Inr (sha256_hex ''program'')"
  by (rule fetchExpectedSha_listing [OF demo_answers(1) demo_release_names demo_listing])

lemma demo_download:
  "\<exists>p fs'. downloadAsset demo_dl demo_fetch_opts assetKindBinary Map.empty = (Inr p, fs')"
proof -
  define q where "q = \<lparr>q_asset = demo_asset, q_version = ''v1'', q_cache = abs_path [''home'', ''.cache''],
      q_sha = sha256_hex ''program''\<rparr>"
  have q: "request_of demo_dl demo_fetch_opts assetKindBinary q"
    by (simp add: request_of_def q_def demo_platform demo_version demo_cache demo_expected)
  show ?thesis
    using fetch_into_cache_succeeds [OF demo_no_failures demo_answers(2) demo_temp,
      where cp = "cached_path q" and kind = assetKindBinary and a = demo_asset]
    by (auto simp: downloadAsset_request [OF q] q_def)
qed

lemma downloaded_file_is_verified_witness:
  "\<exists>p fs' f. downloadAsset demo_dl demo_fetch_opts assetKindBinary Map.empty = (Inr p, fs')
     \<and> fs' p = Some f \<and> sha256_hex (f_content f) = sha256_hex ''program''"
proof -
  obtain p fs' where d: "downloadAsset demo_dl demo_fetch_opts assetKindBinary Map.empty = (Inr p, fs')"
    using demo_download by blast
  from downloaded_file_is_verified [OF this] d show ?thesis
    by (auto simp: demo_platform demo_version demo_expected)
qed

lemma failed_download_leaves_nothing_witness:
  "\<exists>e fs'. downloadAsset (demo_dl\<lparr>d_Rename := Some not_exist\<rparr>) demo_fetch_opts 7 Map.empty = (Inl e, fs')
     \<and> fs' = Map.empty"
proof -
  let ?env = "demo_dl\<lparr>d_Rename := Some not_exist\<rparr>"
  have "\<exists>e. downloadAsset ?env demo_fetch_opts 7 Map.empty = (Inl e, Map.empty)"
    by (rule downloadAsset_no_request)
      (simp add: request_of_def demo_dl_def assetFor_def assetKindBinary_def assetKindLibrary_def)
  then obtain e where e: "downloadAsset ?env demo_fetch_opts 7 Map.empty = (Inl e, Map.empty)" by blast
  have "d_remove_ok ?env" by (simp add: demo_dl_def)
  with failed_download_leaves_nothing [OF e] e show ?thesis by blast
qed

lemma second_download_is_cached_witness:
  "\<exists>p fs'. downloadAsset demo_dl demo_fetch_opts assetKindBinary Map.empty = (Inr p, fs')
     \<and> downloadAsset demo_dl demo_fetch_opts assetKindBinary fs' = (Inr p, fs')"
proof -
  obtain p fs' where d: "downloadAsset demo_dl demo_fetch_opts assetKindBinary Map.empty = (Inr p, fs')"
    using demo_download by blast
  from second_download_is_cached [OF this, of demo_dl demo_fetch_opts] d show ?thesis by (simp add: demo_dl_def)
qed

lemma listed_checksum_is_a_digest_witness: "plain_elem (sha256_hex ''program'')"
  using listed_checksum_is_a_digest [OF demo_expected] by simp

lemma consistent_release_is_installed_witness:
  "\<exists>p fs' f. downloadAsset demo_dl demo_fetch_opts assetKindBinary Map.empty = (Inr p, fs') \<and> fs' p = Some f
      \<and> sha256_hex (f_content f) = sha256_hex ''program''"
  by (rule consistent_release_is_installed [OF demo_platform demo_version demo_cache,
        unfolded demo_mirror_simps, OF demo_answers(1) demo_release_names demo_listing demo_answers(2) demo_no_failures demo_temp])

lemma mirror_tag_is_followed_witness:
  "resolveDownloadVersion demo_dl (demo_fetch_opts\<lparr>o_Version := '' Latest ''\<rparr>) = Inr ''v2''"
proof -
  have r: "latestVersionRequested (TrimSpace '' Latest '')" "TrimSpace '' v2'' = ''v2''" "ascii '' v2''"
    "length (metadata_text tag_name '' v2'') < 60"
    by code_simp+
  then have "length (metadata_text tag_name '' v2'') < metadata_limit" by (simp add: metadata_limit_def)
  with mirror_tag_is_followed [of "demo_fetch_opts\<lparr>o_Version := '' Latest ''\<rparr>" demo_dl "'' v2''"] r
  show ?thesis by (simp add: demo_answers)
qed

lemma cached_path_is_in_the_cache_witness:
  "\<exists>fs'. downloadAsset demo_dl demo_fetch_opts assetKindBinary Map.empty
      = (Inr (abs_path [''home'', ''.cache'', ''vialite'', ''v1'', sha256_hex ''program'', demo_asset]), fs')"
proof -
  have pl: "list_all plain_elem [''home'', ''.cache'']" "plain_elem ''v1''"
    by (simp_all add: text_simps)
  obtain p fs' where d: "downloadAsset demo_dl demo_fetch_opts assetKindBinary Map.empty = (Inr p, fs')"
    using demo_download by blast
  from cached_path_is_in_the_cache [OF this demo_cache _ pl(1) demo_version pl(2)] d
  show ?thesis by (auto simp: demo_platform demo_expected)
qed

section \<open>A version that is not a file name\<close>

definition demo_escape :: string where "demo_escape = ''../../../tmp''"

definition demo_hostile :: dl_env where
  "demo_hostile = demo_dl\<lparr>d_http := (\<lambda>url.
     if url = mirrorLatestReleaseURL demo_mirror then Response 200 (metadata_text tag_name demo_escape) None
     else if url = checksums_url demo_mirror demo_escape then Response 200 (checksums_text demo_release) None
     else Response 200 ''program'' None)\<rparr>"

definition demo_follow_opts :: options where
  "demo_follow_opts = demo_fetch_opts\<lparr>o_Version := []\<rparr>"

lemma demo_hostile_urls:
  "checksums_url demo_mirror demo_escape \<noteq> mirrorLatestReleaseURL demo_mirror"
  "asset_url demo_mirror demo_escape demo_asset \<noteq> mirrorLatestReleaseURL demo_mirror"
  "asset_url demo_mirror demo_escape demo_asset \<noteq> checksums_url demo_mirror demo_escape"
  by code_simp+

lemma demo_escape_path: "path_join [abs_path [''home'', ''.cache''], ''vialite'', demo_escape] = abs_path [''tmp'']"
  by code_simp

lemma demo_hostile_version: "resolveDownloadVersion demo_hostile demo_follow_opts = Inr demo_escape"
proof -
  have f: "parse_json (metadata_text tag_name demo_escape) = Some (JObject [(tag_name, JString demo_escape)])"
    by (rule parse_metadata_text) code_simp+
  have r: "latestVersionRequested (TrimSpace [])" "TrimSpace demo_escape = demo_escape" "demo_escape \<noteq> []"
    "length (metadata_text tag_name demo_escape) < 60"
    by code_simp+
  then have "length (metadata_text tag_name demo_escape) < metadata_limit" by (simp add: metadata_limit_def)
  with f r show ?thesis
    by (simp add: demo_follow_opts_def resolveDownloadVersion_def io_simps demo_hostile_def
        unmarshal_field_def Let_def)
qed

text \<open>C38: The version is not checked: with the version unset, a mirror whose latest tag is
  \<open>../../../tmp\<close> makes \<open>downloadAsset\<close> install its program under \<open>/tmp\<close>, outside the cache
  directory \<open>/home/.cache\<close>.\<close>

theorem mirror_tag_can_leave_the_cache:
  "o_Version demo_follow_opts = [] \<and> d_UserCacheDir demo_hostile = Inr (abs_path [''home'', ''.cache''])
   \<and> (\<exists>fs'. downloadAsset demo_hostile demo_follow_opts assetKindBinary Map.empty
        = (Inr (abs_path [''tmp'', sha256_hex ''program'', demo_asset]), fs'))"
proof -
  have base: "download_base demo_follow_opts = demo_mirror"
    by (simp add: demo_follow_opts_def demo_fetch_opts_def download_base_def demo_mirror_def)
  have plat: "assetFor assetKindBinary (d_GOOS demo_hostile) (d_GOARCH demo_hostile) = Inr demo_asset"
    using demo_platform by (simp add: demo_hostile_def)
  have http: "d_http demo_hostile (checksums_url demo_mirror demo_escape) = Response 200 (checksums_text demo_release) None"
    "d_http demo_hostile (asset_url demo_mirror demo_escape demo_asset) = Response 200 ''program'' None"
    using demo_hostile_urls by (simp_all add: demo_hostile_def)
  define q where "q = \<lparr>q_asset = demo_asset, q_version = demo_escape, q_cache = abs_path [''home'', ''.cache''],
      q_sha = sha256_hex ''program''\<rparr>"
  have q: "request_of demo_hostile demo_follow_opts assetKindBinary q"
    using fetchExpectedSha_listing [OF http(1) demo_release_names demo_listing]
    by (simp add: request_of_def q_def plat demo_hostile_version base) (simp add: demo_hostile_def demo_dl_def)
  have "path_join [abs_path [''tmp''], sha256_hex ''program'', demo_asset]
      = abs_path ([''tmp''] @ [sha256_hex ''program'', demo_asset])"
    using plain_elem_asset [OF plat] plain_elem_sha [OF sha256_hex_length sha256_hex_lower]
    by (intro path_join_abs) (simp_all add: text_simps)
  then have cp: "cached_path q = abs_path [''tmp'', sha256_hex ''program'', demo_asset]"
    by (simp add: cached_path_def q_def demo_escape_path verifiedDownloadPath_def)
  have nf: "no_failures demo_hostile" "list_ex (\<lambda>r. (Map.empty :: file_system) (temp_path d a r) = None) (d_temp_names demo_hostile)" for d a
    by (simp_all add: no_failures_def demo_hostile_def demo_dl_def)
  obtain fs' where "fetch_into_cache demo_hostile assetKindBinary (asset_url demo_mirror demo_escape demo_asset) demo_asset
      (sha256_hex ''program'') (cached_path q) Map.empty = (Inr (cached_path q), fs')"
    using fetch_into_cache_succeeds [OF nf(1) http(2) nf(2)] by blast
  then have "downloadAsset demo_hostile demo_follow_opts assetKindBinary Map.empty = (Inr (cached_path q), fs')"
    by (simp add: downloadAsset_request [OF q] base) (simp add: q_def)
  then show ?thesis by (auto simp: cp) (simp_all add: demo_follow_opts_def demo_hostile_def demo_dl_def)
qed

end
