(* ===== verification/Locate.thy ===== *)
theory Locate
  imports DownloadProps
begin

text \<open>
  Finding the native runtime (\<^verbatim>\<open>locate.go\<close>, \<^verbatim>\<open>embed.go\<close> and
  \<^verbatim>\<open>embed_helpers.go\<close>): the explicit path, the environment variable, the copy linked
  into the program, the search path or the system's library directories, and the download,
  in this order.

  What a build embeds is a value of \<open>embed_build\<close>: nothing (\<^verbatim>\<open>embed_default.go\<close>),
  embedding requested on a platform without assets (\<^verbatim>\<open>embed_unsupported.go\<close>), or the
  two assets of an architecture (\<^verbatim>\<open>embed_linux_amd64.go\<close>,
  \<^verbatim>\<open>embed_linux_arm64.go\<close>). Stat, the environment and the program search are answers
  of the machine, in the record \<open>locate_env\<close>.
\<close>

unbundle bit_operations_syntax

section \<open>The environment\<close>

datatype embed_build =
    NotEmbedded
  | EmbedUnsupported
  | Embedded string string string

record file_info =
  fi_dir :: bool
  fi_mode :: "32 word"

record locate_env =
  l_GOOS :: string
  l_Getenv :: "string \<Rightarrow> string"
  l_Stat :: "string \<Rightarrow> (go_error, file_info) result"
  l_build :: embed_build
  l_MkdirAll :: "string \<Rightarrow> go_error option"
  l_ReadFile :: "string \<Rightarrow> go_error option"
  l_WriteFile :: "(nat option \<times> go_error) option"
  l_LookPath :: "(go_error, string) result"
  l_download :: dl_env

section \<open>Embedded assets\<close>

text \<open>\<^verbatim>\<open>os.ReadFile(path)\<close> gives the content of the file when the system lets it.\<close>

definition holds_content :: "locate_env \<Rightarrow> string \<Rightarrow> string \<Rightarrow> file_system \<Rightarrow> bool" where
  "holds_content le path content fs \<longleftrightarrow>
     l_ReadFile le path = None \<and> map_option f_content (fs path) = Some content"

text \<open>The result is a path, no asset, or an error. A write that fails may have emptied the
  file and written part of the data.\<close>

definition extractBytes ::
  "locate_env \<Rightarrow> string \<Rightarrow> string \<Rightarrow> nat \<Rightarrow> file_system \<Rightarrow> (go_error, string option) result \<times> file_system" where
  "extractBytes le name content mode fs =
     (if content = [] then (Inr None, fs)
      else case d_UserCacheDir (l_download le) of
        Inl e \<Rightarrow> (Inl e, fs)
      | Inr cacheDir \<Rightarrow>
          (let dir = path_join [cacheDir, ''vialite'', ''embedded'', sha256_hex content];
               path = path_join [dir, name]
           in case l_MkdirAll le dir of
                Some e \<Rightarrow> (Inl e, fs)
              | None \<Rightarrow>
                  if holds_content le path content fs then (Inr (Some path), fs)
                  else case l_WriteFile le of
                    None \<Rightarrow> (Inr (Some path), write_file path content mode fs)
                  | Some (None, e) \<Rightarrow> (Inl e, fs)
                  | Some (Some n, e) \<Rightarrow> (Inl e, write_file path (take n content) mode fs)))"

definition extractEmbeddedAsset ::
  "locate_env \<Rightarrow> assetKind \<Rightarrow> file_system \<Rightarrow> (go_error, string option) result \<times> file_system" where
  "extractEmbeddedAsset le kind fs =
     (case l_build le of
        NotEmbedded \<Rightarrow> (Inr None, fs)
      | EmbedUnsupported \<Rightarrow> (Inl (Sentinel ErrUnsupportedEmbeddedMode), fs)
      | Embedded arch binary library \<Rightarrow>
          if kind = assetKindBinary then extractBytes le (''vialite-linux-'' @ arch) binary 493 fs
          else if kind = assetKindLibrary then
            extractBytes le (''libvialite-linux-'' @ arch @ ''.so'') library 420 fs
          else (Inr None, fs))"

definition extractEmbeddedBinary where
  "extractEmbeddedBinary le fs = extractEmbeddedAsset le assetKindBinary fs"

definition extractEmbeddedLibrary where
  "extractEmbeddedLibrary le fs = extractEmbeddedAsset le assetKindLibrary fs"

section \<open>Checks on a path\<close>

definition is_a_directory :: go_error where "is_a_directory = NewError ''is a directory'' []"

definition executableAt :: "locate_env \<Rightarrow> string \<Rightarrow> go_error option" where
  "executableAt le p =
     (case l_Stat le p of
        Inl e \<Rightarrow> Some e
      | Inr info \<Rightarrow>
          if fi_dir info then Some is_a_directory
          else if l_GOOS le \<noteq> ''windows'' \<and> fi_mode info AND 73 = 0
          then Some (NewError ''not executable'' []) else None)"

definition fileAt :: "locate_env \<Rightarrow> string \<Rightarrow> go_error option" where
  "fileAt le p =
     (case l_Stat le p of
        Inl e \<Rightarrow> Some e
      | Inr info \<Rightarrow> if fi_dir info then Some is_a_directory else None)"

definition libraryName :: "locate_env \<Rightarrow> string" where
  "libraryName le =
     (if l_GOOS le = ''darwin'' then ''libvialite.dylib''
      else if l_GOOS le = ''windows'' then ''vialite.dll'' else ''libvialite.so'')"

definition SplitList :: "string \<Rightarrow> string list" where
  "SplitList p = (if p = [] then [] else split_on (CHR '':'') p)"

definition systemLibDirs :: "locate_env \<Rightarrow> string list" where
  "systemLibDirs le =
     (let dirs = [''/usr/local/lib'', ''/usr/lib'']; env = l_Getenv le ''LD_LIBRARY_PATH''
      in if env \<noteq> [] then SplitList env @ dirs else dirs)"

text \<open>The loop over the directories: the first that has the library.\<close>

fun find_library :: "locate_env \<Rightarrow> string list \<Rightarrow> string option" where
  "find_library le [] = None"
| "find_library le (dir # dirs) =
     (let p = path_join [dir, libraryName le] in
      if fileAt le p = None then Some p else find_library le dirs)"

section \<open>Locating\<close>

text \<open>The download as the last resort, with the sentinel of the artifact.\<close>

definition download_or ::
  "sentinel \<Rightarrow> locate_env \<Rightarrow> options \<Rightarrow> assetKind \<Rightarrow> file_system \<Rightarrow> (go_error, string) result \<times> file_system" where
  "download_or missing le opts kind fs =
     (if \<not> o_Offline opts then
        (case downloadAsset (l_download le) opts kind fs of
           (Inr path, fs') \<Rightarrow> (Inr path, fs')
         | (Inl e, fs') \<Rightarrow> (Inl (Wrapped (Sentinel missing) [''auto-download failed'']), fs'))
      else (Inl (Sentinel missing), fs))"

definition search_binary :: "locate_env \<Rightarrow> options \<Rightarrow> file_system \<Rightarrow> (go_error, string) result \<times> file_system" where
  "search_binary le opts fs =
     (case l_LookPath le of
        Inr path \<Rightarrow> (Inr path, fs)
      | Inl _ \<Rightarrow> download_or ErrNoBinary le opts assetKindBinary fs)"

definition search_library :: "locate_env \<Rightarrow> options \<Rightarrow> file_system \<Rightarrow> (go_error, string) result \<times> file_system" where
  "search_library le opts fs =
     (case find_library le (systemLibDirs le) of
        Some path \<Rightarrow> (Inr path, fs)
      | None \<Rightarrow> download_or ErrNoLibrary le opts assetKindLibrary fs)"

text \<open>What follows the extraction: its error unless embedding is unsupported, its path, or
  the rest of the search.\<close>

definition after_extract ::
  "(go_error, string option) result \<times> file_system \<Rightarrow> (file_system \<Rightarrow> (go_error, string) result \<times> file_system)
    \<Rightarrow> (go_error, string) result \<times> file_system" where
  "after_extract extracted rest =
     (case extracted of
        (Inl e, fs) \<Rightarrow> if errors_is e ErrUnsupportedEmbeddedMode then rest fs else (Inl e, fs)
      | (Inr (Some path), fs) \<Rightarrow> (Inr path, fs)
      | (Inr None, fs) \<Rightarrow> rest fs)"

definition locateBinary :: "locate_env \<Rightarrow> options \<Rightarrow> file_system \<Rightarrow> (go_error, string) result \<times> file_system" where
  "locateBinary le opts fs =
     (if o_BinaryPath opts \<noteq> [] then
        (case executableAt le (o_BinaryPath opts) of
           Some e \<Rightarrow> (Inl (Wrapped e [''BinaryPath'', o_BinaryPath opts]), fs)
         | None \<Rightarrow> (Inr (o_BinaryPath opts), fs))
      else let env = l_Getenv le ''VIALITE_BINARY'' in
        if env \<noteq> [] then
          (case executableAt le env of
             Some e \<Rightarrow> (Inl (Wrapped e [''$VIALITE_BINARY'', env]), fs)
           | None \<Rightarrow> (Inr env, fs))
        else after_extract (extractEmbeddedBinary le fs) (search_binary le opts))"

definition locateLibrary :: "locate_env \<Rightarrow> options \<Rightarrow> file_system \<Rightarrow> (go_error, string) result \<times> file_system" where
  "locateLibrary le opts fs =
     (if o_LibraryPath opts \<noteq> [] then
        (case fileAt le (o_LibraryPath opts) of
           Some e \<Rightarrow> (Inl (Wrapped e [''LibraryPath'', o_LibraryPath opts]), fs)
         | None \<Rightarrow> (Inr (o_LibraryPath opts), fs))
      else let env = l_Getenv le ''VIALITE_LIBRARY'' in
        if env \<noteq> [] then
          (case fileAt le env of
             Some e \<Rightarrow> (Inl (Wrapped e [''$VIALITE_LIBRARY'', env]), fs)
           | None \<Rightarrow> (Inr env, fs))
        else after_extract (extractEmbeddedLibrary le fs) (search_library le opts))"

text \<open>\<^verbatim>\<open>runtimeKindName\<close> of \<^verbatim>\<open>log.go\<close>.\<close>

definition runtimeKindName :: "assetKind \<Rightarrow> string" where
  "runtimeKindName kind = (if kind = assetKindLibrary then ''library'' else ''binary'')"


section \<open>Providers of verified files\<close>

text \<open>The contract the extraction and the download share, as the search uses it: a path they
  return leads to a genuine file, and a success changes no other path. \<open>e\<close> is whatever the
  provider depends on.\<close>

locale artifact_source =
  fixes provide :: "'e \<Rightarrow> file_system \<Rightarrow> (go_error, string option) result \<times> file_system"
    and genuine :: "'e \<Rightarrow> file_node \<Rightarrow> bool"
  assumes provided: "provide e fs = (Inr (Some p), fs') \<Longrightarrow> \<exists>f. fs' p = Some f \<and> genuine e f"
    and provide_changes: "provide e fs = (Inr r, fs') \<Longrightarrow> r \<noteq> Some q \<Longrightarrow> fs' q = fs q"
begin

text \<open>A file that was provided outlives later requests: whatever they provide, the path
  still leads to a file that is genuine for the request that wrote it last.\<close>

lemma provided_stays:
  assumes "provide e fs = (Inr (Some p), fs1)" and "provide d fs1 = (Inr r, fs2)"
  shows "\<exists>f. fs2 p = Some f \<and> (genuine e f \<or> r = Some p \<and> genuine d f)"
proof (cases "r = Some p")
  case True
  with provided [of d fs1 p fs2] assms(2) show ?thesis by auto
next
  case False
  with provide_changes [OF assms(2)] provided [OF assms(1)] show ?thesis by auto
qed

lemma not_provided: "provide e fs = (Inr None, fs') \<Longrightarrow> fs' = fs"
  using provide_changes [of e fs None fs'] by (intro ext) simp

end

text \<open>The extraction: genuine means the embedded bytes.\<close>

fun embedded_bytes :: "embed_build \<Rightarrow> assetKind \<Rightarrow> string" where
  "embedded_bytes (Embedded arch binary library) kind = (if kind = assetKindBinary then binary else library)"
| "embedded_bytes _ kind = []"

lemma extractBytes_ok:
  assumes "extractBytes le name content mode fs = (Inr (Some p), fs')"
  shows "\<exists>f. fs' p = Some f \<and> f_content f = content"
  using assms write_file_content [of p content mode fs]
  by (auto simp: extractBytes_def holds_content_def Let_def split: if_splits sum.splits option.splits)

lemma extractBytes_changes:
  assumes "extractBytes le name content mode fs = (Inr r, fs')" and "r \<noteq> Some q"
  shows "fs' q = fs q"
  using assms
  by (auto simp: extractBytes_def Let_def split: if_splits sum.splits option.splits)
    (metis write_file_other)

interpretation embedded: artifact_source
  "\<lambda>(le, kind). extractEmbeddedAsset le kind" "\<lambda>(le, kind) f. f_content f = embedded_bytes (l_build le) kind"
proof (unfold_locales, goal_cases)
  case (1 e fs p fs')
  then show ?case
    by (cases e) (auto simp: extractEmbeddedAsset_def dest: extractBytes_ok split: embed_build.splits if_splits)
next
  case (2 e fs r fs' q)
  then show ?case
    by (cases e) (auto simp: extractEmbeddedAsset_def dest: extractBytes_changes split: embed_build.splits if_splits)
qed

text \<open>The download: genuine means a listed checksum.\<close>

definition listed_genuine :: "dl_env \<times> options \<times> assetKind \<Rightarrow> file_node \<Rightarrow> bool" where
  "listed_genuine x f =
     (case x of (env, opts, kind) \<Rightarrow>
        (case (assetFor kind (d_GOOS env) (d_GOARCH env), resolveDownloadVersion env opts) of
           (Inr a, Inr v) \<Rightarrow>
             fetchExpectedSha env (download_base opts) v a = Inr (sha256_hex (f_content f))
         | _ \<Rightarrow> False))"

definition provide_download ::
  "dl_env \<times> options \<times> assetKind \<Rightarrow> file_system \<Rightarrow> (go_error, string option) result \<times> file_system" where
  "provide_download x fs =
     (case x of (env, opts, kind) \<Rightarrow>
        (case downloadAsset env opts kind fs of (r, fs') \<Rightarrow> (map_sum id Some r, fs')))"

lemma downloadAsset_genuine:
  assumes "downloadAsset env opts kind fs = (Inr p, fs')"
  shows "\<exists>f. fs' p = Some f \<and> listed_genuine (env, opts, kind) f" and "\<forall>q. q \<noteq> p \<longrightarrow> fs' q = fs q"
proof -
  obtain q f where "request_of env opts kind q" "fs' p = Some f" "sha256_hex (f_content f) = q_sha q"
    "\<forall>r. r \<noteq> p \<longrightarrow> fs' r = fs r"
    using downloadAsset_ok [OF assms] by blast
  then show "\<exists>f. fs' p = Some f \<and> listed_genuine (env, opts, kind) f" and "\<forall>q. q \<noteq> p \<longrightarrow> fs' q = fs q"
    by (simp_all add: request_of_def listed_genuine_def)
qed

interpretation downloaded: artifact_source provide_download listed_genuine
proof (unfold_locales, goal_cases)
  case (1 e fs p fs')
  obtain env opts kind s where e: "e = (env, opts, kind)" "downloadAsset env opts kind fs = (s, fs')"
      "map_sum id Some s = Inr (Some p)"
    using 1 by (cases e) (auto simp: provide_download_def split: prod.splits)
  then have "s = Inr p" by (cases s) auto
  with e downloadAsset_genuine(1) show ?case by blast
next
  case (2 e fs r fs' q)
  obtain env opts kind s where e: "e = (env, opts, kind)" "downloadAsset env opts kind fs = (s, fs')"
      "map_sum id Some s = Inr r"
    using 2 by (cases e) (auto simp: provide_download_def split: prod.splits)
  then obtain p where p: "s = Inr p" "r = Some p" by (cases s) auto
  with 2 have "q \<noteq> p" by simp
  with downloadAsset_genuine(2) [OF e(2) [unfolded p(1)]] show ?case by blast
qed

section \<open>Where a runtime comes from\<close>

lemma download_or_ok:
  assumes "download_or missing le opts kind fs = (Inr p, fs')"
  shows "\<not> o_Offline opts \<and> (\<exists>f. fs' p = Some f \<and> listed_genuine (l_download le, opts, kind) f)"
proof -
  have d: "\<not> o_Offline opts" "downloadAsset (l_download le) opts kind fs = (Inr p, fs')"
    using assms by (auto simp: download_or_def split: if_splits prod.splits sum.splits)
  then have "provide_download (l_download le, opts, kind) fs = (Inr (Some p), fs')"
    by (simp add: provide_download_def)
  from d(1) downloaded.provided [OF this] show ?thesis by blast
qed

lemma after_extract_ok:
  assumes "after_extract (extractEmbeddedAsset le kind fs) rest = (Inr p, fs')"
  shows "(\<exists>f. fs' p = Some f \<and> f_content f = embedded_bytes (l_build le) kind)
      \<or> (\<exists>fs1. rest fs1 = (Inr p, fs'))"
proof -
  obtain x fs1 where x: "extractEmbeddedAsset le kind fs = (x, fs1)" by fastforce
  consider "x = Inr (Some p)" "fs' = fs1" | "rest fs1 = (Inr p, fs')"
    using assms x by (auto simp: after_extract_def split: sum.splits option.splits if_splits)
  then show ?thesis
  proof cases
    case 1
    then show ?thesis using embedded.provided [of "(le, kind)" fs p fs1] x by simp
  qed blast
qed

lemma find_library_Some:
  "find_library le dirs = Some p \<Longrightarrow> \<exists>d \<in> set dirs. p = path_join [d, libraryName le] \<and> fileAt le p = None"
  by (induction dirs) (auto simp: Let_def split: if_splits)


text \<open>Where a library comes from: as for the binary, with a plain file check, and with
  the first of the directories of \<open>LD_LIBRARY_PATH\<close> and the system that has it in the
  place of the search path.\<close>

lemma located_library_provenance:
  assumes "locateLibrary le opts fs = (Inr p, fs')"
  defines "env \<equiv> l_Getenv le ''VIALITE_LIBRARY''"
  shows "if o_LibraryPath opts \<noteq> [] then p = o_LibraryPath opts \<and> fileAt le p = None \<and> fs' = fs
    else if env \<noteq> [] then p = env \<and> fileAt le p = None \<and> fs' = fs
    else (\<exists>f. fs' p = Some f \<and> f_content f = embedded_bytes (l_build le) assetKindLibrary)
      \<or> (\<exists>d \<in> set (systemLibDirs le). p = path_join [d, libraryName le] \<and> fileAt le p = None)
      \<or> \<not> o_Offline opts \<and> (\<exists>f. fs' p = Some f \<and> listed_genuine (l_download le, opts, assetKindLibrary) f)"
proof (cases "o_LibraryPath opts = [] \<and> env = []")
  case True
  with assms have "after_extract (extractEmbeddedAsset le assetKindLibrary fs) (search_library le opts) = (Inr p, fs')"
    by (simp add: locateLibrary_def extractEmbeddedLibrary_def)
  from after_extract_ok [OF this] True show ?thesis
    by (cases "find_library le (systemLibDirs le)")
      (auto simp: search_library_def dest: download_or_ok dest!: find_library_Some)
next
  case False
  with assms show ?thesis by (auto simp: locateLibrary_def Let_def split: option.splits if_splits)
qed

text \<open>Offline, the network has no say.\<close>

lemma offline_ignores_network:
  fixes le :: locate_env and h :: "string \<Rightarrow> http_reply"
  assumes "o_Offline opts"
  defines "le' \<equiv> le\<lparr>l_download := (l_download le)\<lparr>d_http := h\<rparr>\<rparr>"
  shows "locateBinary le' opts fs = locateBinary le opts fs"
proof -
  have fields: "l_MkdirAll le' = l_MkdirAll le" "l_ReadFile le' = l_ReadFile le" "l_WriteFile le' = l_WriteFile le"
    "d_UserCacheDir (l_download le') = d_UserCacheDir (l_download le)"
    by (simp_all add: le'_def)
  have x: "extractBytes le' = extractBytes le"
    unfolding fun_eq_iff extractBytes_def holds_content_def fields by blast
  have "l_build le' = l_build le" by (simp add: le'_def)
  then have "extractEmbeddedBinary le' fs = extractEmbeddedBinary le fs"
    by (simp add: extractEmbeddedBinary_def extractEmbeddedAsset_def x split: embed_build.split)
  moreover have "search_binary le' opts = search_binary le opts"
    using assms(1) by (intro ext) (simp add: search_binary_def download_or_def le'_def split: sum.split)
  moreover have "executableAt le' = executableAt le" "l_Getenv le' = l_Getenv le"
    by (auto simp: executableAt_def le'_def split: sum.split)
  ultimately show ?thesis by (simp add: locateBinary_def Let_def)
qed

section \<open>Concrete searches\<close>

definition demo_locate :: locate_env where
  "demo_locate = \<lparr>l_GOOS = ''linux'', l_Getenv = (\<lambda>_. []), l_Stat = (\<lambda>_. Inl not_exist), l_build = NotEmbedded,
     l_MkdirAll = (\<lambda>_. None), l_ReadFile = (\<lambda>_. None), l_WriteFile = None, l_LookPath = Inl not_exist,
     l_download = demo_dl\<rparr>"


lemma located_library_provenance_witness:
  "\<exists>p fs' f. locateLibrary (demo_locate\<lparr>l_build := Embedded ''amd64'' [] ''native code''\<rparr>) (demo_fetch_opts\<lparr>o_Offline := True\<rparr>) Map.empty
     = (Inr p, fs') \<and> fs' p = Some f \<and> f_content f = ''native code''"
proof -
  let ?le = "demo_locate\<lparr>l_build := Embedded ''amd64'' [] ''native code''\<rparr>"
  let ?o = "demo_fetch_opts\<lparr>o_Offline := True\<rparr>"
  have o: "o_LibraryPath ?o = []" by (simp add: demo_fetch_opts_def sample_options_def)
  have "\<exists>p fs'. locateLibrary ?le ?o Map.empty = (Inr p, fs')"
    using o by (simp add: locateLibrary_def demo_locate_def extractEmbeddedLibrary_def extractEmbeddedAsset_def
        after_extract_def assetKindLibrary_def assetKindBinary_def extractBytes_def demo_cache holds_content_def Let_def)
  then obtain p fs' where l: "locateLibrary ?le ?o Map.empty = (Inr p, fs')" by blast
  have e: "l_Getenv ?le v = []" "fileAt ?le v = Some not_exist" for v by (simp_all add: demo_locate_def fileAt_def)
  from located_library_provenance [OF l] o e l show ?thesis
    by (simp add: assetKindLibrary_def assetKindBinary_def)
qed

end
