(* ===== verification/GateAdapter.thy ===== *)
theory GateAdapter
  imports Server
begin

text \<open>
  The adapter for Gate (\<^verbatim>\<open>integration/gate\<close>): the configuration a proxy reads
  (\<^verbatim>\<open>config.go\<close>) and the wrapper around the server (\<^verbatim>\<open>gate.go\<close>), whose
  receiver may be nil when Via is disabled. The server hook \<^verbatim>\<open>newSrv\<close> is
  \<open>server_New\<close>; the wrapped calls of a server are arguments of the wrappers.
\<close>

section \<open>The configuration\<close>

record backend_config =
  bc_Name :: string
  bc_Address :: string
  bc_Version :: string
  bc_Forwarding :: string

record gate_config =
  c_Enabled :: bool
  c_Mode :: string
  c_GateProtocol :: string
  c_Bind :: string
  c_LibraryPath :: string
  c_BinaryPath :: string
  c_Version :: string
  c_Mirror :: string
  c_Offline :: bool
  c_Backends :: "backend_config list"

definition parseForwarding :: "string \<Rightarrow> (go_error, string) result" where
  "parseForwarding value =
     (let v = ToLower value in
      if v = [] \<or> v = ''none'' then Inr ForwardingNone
      else if v = ''legacy'' then Inr ForwardingLegacy
      else if v = ''velocity'' then Inr ForwardingVelocity
      else Inl (Wrapped (Sentinel GateErrInvalidForwarding) [value]))"

definition parse_mode :: "string \<Rightarrow> (go_error, mode) result" where
  "parse_mode value =
     (let v = ToLower value in
      if v = [] \<or> v = ''subprocess'' then Inr ModeSubprocess
      else if v = ''embedded'' then Inr ModeEmbedded
      else Inl (Wrapped (Sentinel GateErrInvalidMode) [value]))"

text \<open>The loop over the configured backends, with the slice so far.\<close>

fun convert_backends :: "backend_config list \<Rightarrow> backend list \<Rightarrow> (go_error, backend list) result" where
  "convert_backends [] done = Inr done"
| "convert_backends (bc # bcs) done =
     (case parseForwarding (bc_Forwarding bc) of
        Inl e \<Rightarrow> Inl e
      | Inr fwd \<Rightarrow>
          convert_backends bcs
            (done @ [\<lparr>b_Name = bc_Name bc, b_Address = bc_Address bc, b_Version = bc_Version bc,
                      b_Detect = False, b_Forwarding = fwd\<rparr>]))"

definition toOptions :: "gate_config \<Rightarrow> nat option \<Rightarrow> (go_error, options) result" where
  "toOptions c logger =
     (case parse_mode (c_Mode c) of
        Inl e \<Rightarrow> Inl e
      | Inr m \<Rightarrow>
          (case convert_backends (c_Backends c) [] of
             Inl e \<Rightarrow> Inl e
           | Inr bs \<Rightarrow>
               Inr \<lparr>o_Mode = m, o_GateProtocol = c_GateProtocol c, o_Bind = c_Bind c,
                    o_LibraryPath = c_LibraryPath c, o_BinaryPath = c_BinaryPath c,
                    o_Version = c_Version c, o_Mirror = c_Mirror c, o_Offline = c_Offline c,
                    o_Logger = logger, o_RestartPolicy = None, o_ShutdownTimeout = 0,
                    o_AllowDynamicBackends = False, o_Backends = bs, o_ReserveHook = False\<rparr>))"

section \<open>The wrapper\<close>

record via =
  v_server :: "options \<times> runner_kind"
  v_logger :: nat

definition gate_New :: "gate_config \<Rightarrow> nat option \<Rightarrow> (go_error, via option) result" where
  "gate_New cfg logger =
     (if \<not> c_Enabled cfg then Inr None
      else let lg = (case logger of None \<Rightarrow> default_logger | Some l \<Rightarrow> l) in
        case toOptions cfg (Some lg) of
          Inl e \<Rightarrow> Inl e
        | Inr opts \<Rightarrow>
            (case server_New opts of
               Inl e \<Rightarrow> Inl e
             | Inr srv \<Rightarrow> Inr (Some \<lparr>v_server = srv, v_logger = lg\<rparr>)))"

definition gate_Start :: "('s \<Rightarrow> go_error option) \<Rightarrow> 's option \<Rightarrow> go_error option" where
  "gate_Start start v =
     (case v of
        None \<Rightarrow> None
      | Some s \<Rightarrow>
          (case start s of
             None \<Rightarrow> None
           | Some e \<Rightarrow>
               if errors_is e ContextCanceled \<or> errors_is e ContextDeadlineExceeded then None else Some e))"

definition gate_Stop :: "('s \<Rightarrow> go_error option) \<Rightarrow> 's option \<Rightarrow> go_error option" where
  "gate_Stop stop v = (case v of None \<Rightarrow> None | Some s \<Rightarrow> stop s)"

definition gate_WaitReady :: "('s \<Rightarrow> go_error option) \<Rightarrow> 's option \<Rightarrow> go_error option" where
  "gate_WaitReady wait v = (case v of None \<Rightarrow> Some (Sentinel ErrNotStarted) | Some s \<Rightarrow> wait s)"

definition gate_Healthy :: "('s \<Rightarrow> bool) \<Rightarrow> 's option \<Rightarrow> bool" where
  "gate_Healthy healthy v = (case v of None \<Rightarrow> False | Some s \<Rightarrow> healthy s)"

definition gate_BackendDialAddress ::
  "('s \<Rightarrow> string \<Rightarrow> (go_error, string) result) \<Rightarrow> 's option \<Rightarrow> string \<Rightarrow> (go_error, string) result" where
  "gate_BackendDialAddress dial v name =
     (case v of None \<Rightarrow> Inl (Sentinel ErrNotStarted) | Some s \<Rightarrow> dial s name)"

section \<open>Conversion\<close>

text \<open>The specification: the words the configuration may use, and the backend a configured
  one stands for.\<close>

definition mode_words :: "(string \<times> mode) list" where
  "mode_words = [([], ModeSubprocess), (''subprocess'', ModeSubprocess), (''embedded'', ModeEmbedded)]"

definition forwarding_words :: "(string \<times> string) list" where
  "forwarding_words = [([], ForwardingNone), (''none'', ForwardingNone), (''legacy'', ForwardingLegacy),
     (''velocity'', ForwardingVelocity)]"

definition backend_of :: "backend_config \<Rightarrow> backend" where
  "backend_of bc =
     \<lparr>b_Name = bc_Name bc, b_Address = bc_Address bc, b_Version = bc_Version bc, b_Detect = False,
      b_Forwarding = the (map_of forwarding_words (ToLower (bc_Forwarding bc)))\<rparr>"

definition known_forwarding :: "backend_config \<Rightarrow> bool" where
  "known_forwarding bc \<longleftrightarrow> map_of forwarding_words (ToLower (bc_Forwarding bc)) \<noteq> None"

lemma parse_mode_words:
  "parse_mode value = (case map_of mode_words (ToLower value) of
     None \<Rightarrow> Inl (Wrapped (Sentinel GateErrInvalidMode) [value]) | Some m \<Rightarrow> Inr m)"
  by (simp add: parse_mode_def mode_words_def Let_def)

lemma parseForwarding_words:
  "parseForwarding value = (case map_of forwarding_words (ToLower value) of
     None \<Rightarrow> Inl (Wrapped (Sentinel GateErrInvalidForwarding) [value]) | Some f \<Rightarrow> Inr f)"
  by (simp add: parseForwarding_def forwarding_words_def Let_def)

lemma convert_backends_ok:
  "convert_backends bcs acc = Inr bs \<longleftrightarrow> list_all known_forwarding bcs \<and> bs = acc @ map backend_of bcs"
proof (induction bcs arbitrary: acc)
  case (Cons bc bcs)
  then show ?case
    by (auto simp: parseForwarding_words known_forwarding_def backend_of_def split: option.split)
qed auto

lemma known_forwarding_modes:
  "known_forwarding bc \<Longrightarrow> b_Forwarding (backend_of bc) \<in> forwarding_modes"
  by (auto simp: known_forwarding_def backend_of_def forwarding_words_def forwarding_modes_def split: if_splits)

lemma map_of_modes: "map_of mode_words w = Some m \<Longrightarrow> m \<in> {ModeEmbedded, ModeSubprocess}"
  by (auto simp: mode_words_def split: if_splits)

text \<open>A configured backend as far as the adapter itself judges it.\<close>

definition good_config_backend :: "backend_config \<Rightarrow> bool" where
  "good_config_backend bc \<longleftrightarrow>
     known_forwarding bc \<and> TrimSpace (bc_Name bc) \<noteq> [] \<and> valid_endpoint (TrimSpace (bc_Address bc))"

lemma good_config_backend_iff:
  "good_config_backend bc \<longleftrightarrow> known_forwarding bc \<and> acceptable_backend (backend_of bc)"
  using known_forwarding_modes [of bc]
  by (auto simp: good_config_backend_def acceptable_backend_def backend_of_def)

lemma server_New_ok:
  "server_New opts = Inr srv \<longleftrightarrow> (\<exists>opts'. validate opts = (opts', None) \<and>
     srv = (opts', if o_Mode opts = ModeEmbedded then EmbeddedRunner else SubprocessRunner))"
  by (auto simp: server_New_def dest: validate_frame elim: validate_okE split: prod.splits option.splits if_splits)

definition converted :: "gate_config \<Rightarrow> nat option \<Rightarrow> mode \<Rightarrow> options" where
  "converted cfg lg m =
     \<lparr>o_Mode = m, o_GateProtocol = c_GateProtocol cfg, o_Bind = c_Bind cfg,
      o_LibraryPath = c_LibraryPath cfg, o_BinaryPath = c_BinaryPath cfg, o_Version = c_Version cfg,
      o_Mirror = c_Mirror cfg, o_Offline = c_Offline cfg, o_Logger = lg, o_RestartPolicy = None,
      o_ShutdownTimeout = 0, o_AllowDynamicBackends = False, o_Backends = map backend_of (c_Backends cfg),
      o_ReserveHook = False\<rparr>"

lemma converted_simps [simp]:
  "o_Mode (converted cfg lg m) = m" "o_AllowDynamicBackends (converted cfg lg m) = False"
  "o_Backends (converted cfg lg m) = map backend_of (c_Backends cfg)"
  by (simp_all add: converted_def)

lemma converted_with: "converted cfg lg m \<lparr>o_Backends := bs\<rparr> = \<lparr>o_Mode = m, o_GateProtocol = c_GateProtocol cfg, o_Bind = c_Bind cfg,
      o_LibraryPath = c_LibraryPath cfg, o_BinaryPath = c_BinaryPath cfg, o_Version = c_Version cfg,
      o_Mirror = c_Mirror cfg, o_Offline = c_Offline cfg, o_Logger = lg, o_RestartPolicy = None,
      o_ShutdownTimeout = 0, o_AllowDynamicBackends = False, o_Backends = bs,
      o_ReserveHook = False\<rparr>"
  unfolding converted_def by simp
lemma toOptions_mode:
  assumes "map_of mode_words (ToLower (c_Mode cfg)) = Some m"
  shows "toOptions cfg lg =
          (case convert_backends (c_Backends cfg) [] of Inl e \<Rightarrow> Inl e
           | Inr bs \<Rightarrow> Inr ((converted cfg lg m)\<lparr>o_Backends := bs\<rparr>))"
proof -
  have "parse_mode (c_Mode cfg) = Inr m" using assms by (simp only: parse_mode_words option.case)
  then show ?thesis unfolding converted_with by (simp only: toOptions_def sum.case)
qed

lemma toOptions_ok:
  "toOptions cfg lg = Inr opts \<longleftrightarrow>
     (\<exists>m. map_of mode_words (ToLower (c_Mode cfg)) = Some m \<and> list_all known_forwarding (c_Backends cfg)
        \<and> opts = converted cfg lg m)"
proof -
  have c: "convert_backends (c_Backends cfg) [] = Inr bs \<longleftrightarrow>
      list_all known_forwarding (c_Backends cfg) \<and> bs = map backend_of (c_Backends cfg)" for bs
    using convert_backends_ok [of "c_Backends cfg" "[]"] by simp
  have u: "(converted cfg lg m)\<lparr>o_Backends := map backend_of (c_Backends cfg)\<rparr> = converted cfg lg m" for m
    by (simp add: converted_def)
  show ?thesis
  proof (cases "map_of mode_words (ToLower (c_Mode cfg))")
    case (Some m)
    show ?thesis
    proof (cases "convert_backends (c_Backends cfg) []")
      case (Inl e)
      then show ?thesis using c [of "map backend_of (c_Backends cfg)"] by (simp add: toOptions_mode [OF Some])
    next
      case (Inr bs)
      then show ?thesis using c [of bs] u Some by (auto simp: toOptions_mode [OF Some])
    qed
  qed (simp add: toOptions_def parse_mode_words)
qed

lemma backend_of_names: "lookup_names (map backend_of bcs) = map (\<lambda>bc. backendLookupName (bc_Name bc)) bcs"
  by (simp add: lookup_names_def backend_of_def)

lemma gate_New_some:
  assumes "c_Enabled cfg"
  shows "gate_New cfg lg = Inr (Some v) \<longleftrightarrow>
    (\<exists>opts. toOptions cfg (Some (v_logger v)) = Inr opts \<and> server_New opts = Inr (v_server v)
      \<and> v_logger v = (case lg of None \<Rightarrow> default_logger | Some l \<Rightarrow> l))"
  using assms by (cases v) (auto simp: gate_New_def Let_def split: sum.splits)

lemma gate_New_ok_iff:
  "is_ok (gate_New cfg lg) \<longleftrightarrow> \<not> c_Enabled cfg
     \<or> (map_of mode_words (ToLower (c_Mode cfg)) \<noteq> None \<and> c_Backends cfg \<noteq> []
        \<and> list_all good_config_backend (c_Backends cfg)
        \<and> distinct (map (\<lambda>bc. backendLookupName (bc_Name bc)) (c_Backends cfg)))"
proof (cases "c_Enabled cfg")
  case True
  let ?lg = "case lg of None \<Rightarrow> default_logger | Some l \<Rightarrow> l"
  show ?thesis
  proof (cases "toOptions cfg (Some ?lg)")
    case (Inl e)
    then have "map_of mode_words (ToLower (c_Mode cfg)) = None \<or> \<not> list_all known_forwarding (c_Backends cfg)"
      using toOptions_ok [of cfg "Some ?lg"] by auto
    with Inl True show ?thesis by (auto simp: gate_New_def Let_def list_all_iff good_config_backend_def)
  next
    case (Inr opts)
    then obtain m where m: "map_of mode_words (ToLower (c_Mode cfg)) = Some m"
        "list_all known_forwarding (c_Backends cfg)" "opts = converted cfg (Some ?lg) m"
      using toOptions_ok by blast
    have "is_ok (gate_New cfg lg) \<longleftrightarrow> is_ok (server_New opts)"
      using True Inr by (auto simp: gate_New_def Let_def is_ok_def split: sum.split)
    also have "\<dots> \<longleftrightarrow> snd (validate opts) = None"
      by (cases "validate opts") (auto simp: is_ok_iff server_New_ok)
    also have "\<dots> \<longleftrightarrow> c_Backends cfg \<noteq> [] \<and> list_all good_config_backend (c_Backends cfg)
        \<and> distinct (map (\<lambda>bc. backendLookupName (bc_Name bc)) (c_Backends cfg))"
      using map_of_modes [OF m(1)] m(2)
      by (auto simp: validate_accepts_iff m(3) list_all_iff good_config_backend_iff backend_of_names)
    finally show ?thesis using True m(1) by simp
  qed
qed (simp add: gate_New_def)

text \<open>C21: Which configurations the adapter accepts: a disabled one, or one whose mode and
  forwarding words are known, with at least one backend, whose names are present and
  distinct up to case and surrounding blanks, and whose addresses are valid.\<close>

theorem gate_accepts_exactly:
  "is_ok (gate_New cfg lg) \<longleftrightarrow> \<not> c_Enabled cfg
     \<or> (map_of mode_words (ToLower (c_Mode cfg)) \<noteq> None \<and> c_Backends cfg \<noteq> []
        \<and> list_all good_config_backend (c_Backends cfg)
        \<and> distinct (map (\<lambda>bc. backendLookupName (bc_Name bc)) (c_Backends cfg)))"
  by (rule gate_New_ok_iff)



definition demo_gate :: gate_config where
  "demo_gate = \<lparr>c_Enabled = True, c_Mode = ''Embedded'', c_GateProtocol = [], c_Bind = [], c_LibraryPath = [],
     c_BinaryPath = [], c_Version = [], c_Mirror = [], c_Offline = False,
     c_Backends = [\<lparr>bc_Name = '' Lobby '', bc_Address = ''10.0.0.1:25565'', bc_Version = [], bc_Forwarding = ''Velocity''\<rparr>]\<rparr>"

lemma demo_gate_good:
  "map_of mode_words (ToLower (c_Mode demo_gate)) = Some ModeEmbedded"
  "c_Backends demo_gate \<noteq> []"
  "list_all good_config_backend (c_Backends demo_gate)"
  "distinct (map (\<lambda>bc. backendLookupName (bc_Name bc)) (c_Backends demo_gate))"
  by code_simp+

lemma gate_accepts_exactly_witness: "is_ok (gate_New demo_gate None)"
  using gate_accepts_exactly [of demo_gate None] demo_gate_good by (simp del: is_ok_simps)


end
