(* ===== verification/SmokeProxy.thy ===== *)
theory SmokeProxy
  imports Server Json
begin

text \<open>
  The smoke proxy (\<^verbatim>\<open>cmd/craftless-vialite-smoke-proxy/main.go\<close>): it reads its settings
  from the environment, starts a server with one backend, waits until it is ready, runs a
  client command that is told the translated address, and stops the server.

  The process environment is a function from names to values (empty when unset) together
  with the list \<^verbatim>\<open>os.Environ\<close>. What the server's calls, the command and the clock
  answer is the record \<open>smoke_answers\<close>; the calls made are a list of events. In
  \<^verbatim>\<open>time.ParseDuration\<close> the fraction is computed exactly, where Go uses floating point.
\<close>

section \<open>Durations\<close>

definition duration_units :: "(string \<times> nat) list" where
  "duration_units =
     [(''ns'', 1), (''us'', 1000), ([CHR 0xC2, CHR 0xB5, CHR ''s''], 1000),
      ([CHR 0xCE, CHR 0xBC, CHR ''s''], 1000), (''ms'', 1000000), (''s'', 1000000000),
      (''m'', 60000000000), (''h'', 3600000000000)]"

definition duration_limit :: nat where "duration_limit = 9223372036854775808"

definition digits_value :: "string \<Rightarrow> nat" where
  "digits_value s = (case parse_digits 10 0 s of None \<Rightarrow> 0 | Some n \<Rightarrow> n)"

definition unit_char :: "char \<Rightarrow> bool" where
  "unit_char c \<longleftrightarrow> c \<noteq> CHR ''.'' \<and> \<not> is_digit c"

text \<open>One number with its unit, and the rest of the text.\<close>

definition duration_part :: "string \<Rightarrow> (nat \<times> string) option" where
  "duration_part s =
     (let whole = takeWhile is_digit s; s1 = dropWhile is_digit s;
          dot = (s1 \<noteq> [] \<and> hd s1 = CHR ''.'');
          frac = (if dot then takeWhile is_digit (tl s1) else []);
          s2 = (if dot then dropWhile is_digit (tl s1) else s1);
          u = takeWhile unit_char s2; v = digits_value whole
      in if v > duration_limit \<or> (whole = [] \<and> frac = []) then None
         else case map_of duration_units u of
           None \<Rightarrow> None
         | Some unit \<Rightarrow>
             (let n = v * unit + digits_value frac * unit div 10 ^ length frac in
              if n > duration_limit then None else Some (n, dropWhile unit_char s2)))"

text \<open>The fuel bounds the number of parts by the length of the text.\<close>

fun duration_parts :: "nat \<Rightarrow> nat \<Rightarrow> string \<Rightarrow> nat option" where
  "duration_parts 0 d s = (if s = [] then Some d else None)"
| "duration_parts (Suc f) d s =
     (if s = [] then Some d
      else case duration_part s of
        None \<Rightarrow> None
      | Some (n, r) \<Rightarrow> if d + n > duration_limit then None else duration_parts f (d + n) r)"

definition ParseDuration :: "string \<Rightarrow> int option" where
  "ParseDuration s =
     (let neg = (s \<noteq> [] \<and> hd s = CHR ''-'');
          body = (if s \<noteq> [] \<and> (hd s = CHR ''-'' \<or> hd s = CHR ''+'') then tl s else s)
      in if body = ''0'' then Some 0
         else if body = [] then None
         else case duration_parts (length body) 0 body of
           None \<Rightarrow> None
         | Some d \<Rightarrow> if neg then Some (- int d) else if d = duration_limit then None else Some (int d))"

section \<open>Settings\<close>

type_synonym settings = "string \<Rightarrow> string"

definition envDefault :: "settings \<Rightarrow> string \<Rightarrow> string \<Rightarrow> string" where
  "envDefault env name fallback = (let value = env name in if value \<noteq> [] then value else fallback)"

definition envDuration :: "settings \<Rightarrow> string \<Rightarrow> int \<Rightarrow> int" where
  "envDuration env name fallback =
     (let value = env name in
      if value = [] then fallback
      else case ParseDuration value of
        None \<Rightarrow> fallback
      | Some d \<Rightarrow> if d \<le> 0 then fallback else d)"

definition smokeMode :: "string \<Rightarrow> (go_error, mode) result" where
  "smokeMode value =
     (let v = ToLower (TrimSpace value) in
      if v = [] \<or> v = ''embedded'' then Inr ModeEmbedded
      else if v = ''subprocess'' then Inr ModeSubprocess
      else Inl (NewError ''unsupported VIALITE_SMOKE_MODE'' [value]))"

definition modeName :: "mode \<Rightarrow> string" where
  "modeName m =
     (if m = ModeEmbedded then ''embedded''
      else if m = ModeSubprocess then ''subprocess'' else ''mode-'' @ FormatInt m)"

definition command_variable :: string where "command_variable = ''VIALITE_SMOKE_CLIENT_COMMAND_JSON''"

definition clientCommand :: "settings \<Rightarrow> (go_error, string list) result" where
  "clientCommand env =
     (let raw = env command_variable in
      if raw = [] then Inl (NewError ''VIALITE_SMOKE_CLIENT_COMMAND_JSON is required'' [])
      else case unmarshal_strings raw of
        Inl e \<Rightarrow> Inl (Wrapped e [''parse VIALITE_SMOKE_CLIENT_COMMAND_JSON''])
      | Inr command \<Rightarrow>
          if command = [] then Inl (NewError ''VIALITE_SMOKE_CLIENT_COMMAND_JSON must not be empty'' [])
          else if list_ex (\<lambda>part. TrimSpace part = []) command
          then Inl (NewError ''VIALITE_SMOKE_CLIENT_COMMAND_JSON contains a blank argument'' [])
          else Inr command)"

section \<open>The environment of the client\<close>

text \<open>\<open>appendEnv\<close> filters in place: \<open>filtered\<close> is the front of the very array the loop
  reads. \<open>i\<close> is the next entry to read, \<open>n\<close> the number kept, \<open>todo\<close> how many are left.\<close>

fun filter_in_place :: "string \<Rightarrow> nat \<Rightarrow> nat \<Rightarrow> nat \<Rightarrow> string list \<Rightarrow> string list" where
  "filter_in_place prefix 0 i n env = take n env"
| "filter_in_place prefix (Suc todo) i n env =
     (if \<not> HasPrefix (env ! i) prefix then filter_in_place prefix todo (Suc i) (Suc n) (env[n := env ! i])
      else filter_in_place prefix todo (Suc i) n env)"

definition appendEnv :: "string list \<Rightarrow> string \<Rightarrow> string \<Rightarrow> string list" where
  "appendEnv env key value =
     (let prefix = key @ ''='' in filter_in_place prefix (length env) 0 0 env @ [prefix @ value])"

section \<open>The run\<close>

text \<open>\<open>a_started\<close> is what \<^verbatim>\<open>Start\<close> returned within five seconds of the stop, if it did.\<close>

record smoke_answers =
  a_wait :: "go_error option"
  a_dial :: "(go_error, string) result"
  a_client :: "go_error option"
  a_stop :: "go_error option"
  a_started :: "go_error option option"

datatype smoke_event =
    StartServer options
  | WaitServer int
  | DialAddress string
  | RunClient "string list" "string list"
  | StopServer int
  | CancelRun

definition smoke_options :: "settings \<Rightarrow> mode \<Rightarrow> string \<Rightarrow> options" where
  "smoke_options env m backendAddress =
     \<lparr>o_Mode = m, o_GateProtocol = envDefault env ''VIALITE_SMOKE_GATE_PROTOCOL'' ''auto'', o_Bind = [],
      o_LibraryPath = env ''VIALITE_SMOKE_LIBRARY_PATH'', o_BinaryPath = env ''VIALITE_SMOKE_BINARY_PATH'',
      o_Version = envDefault env ''VIALITE_SMOKE_VERSION'' ''latest'', o_Mirror = [], o_Offline = False,
      o_Logger = None, o_RestartPolicy = None, o_ShutdownTimeout = 0, o_AllowDynamicBackends = False,
      o_Backends = [\<lparr>b_Name = ''craftless'', b_Address = backendAddress,
        b_Version = envDefault env ''VIALITE_SMOKE_BACKEND_VERSION'' ''auto'', b_Detect = False,
        b_Forwarding = ForwardingNone\<rparr>],
      o_ReserveHook = False\<rparr>"

definition host_key :: string where "host_key = ''CRAFTLESS_SMOKE_SERVER_HOST''"
definition port_key :: string where "port_key = ''CRAFTLESS_SMOKE_SERVER_PORT''"

definition client_env :: "string list \<Rightarrow> string \<Rightarrow> string \<Rightarrow> string list" where
  "client_env environ host port = appendEnv (appendEnv environ host_key host) port_key port"

definition second :: int where "second = 1000000000"

text \<open>What the end of \<^verbatim>\<open>Start\<close> means for the run.\<close>

definition runtime_result :: "go_error option option \<Rightarrow> go_error option" where
  "runtime_result ended =
     (case ended of
        None \<Rightarrow> Some (NewError ''vialite runtime did not exit after stop'' [])
      | Some None \<Rightarrow> None
      | Some (Some e) \<Rightarrow>
          if errors_is e ContextCanceled then None else Some (Wrapped e [''vialite runtime'']))"

text \<open>After the client has run: stop, cancel, and the end of the server's \<^verbatim>\<open>Start\<close>.\<close>

definition smoke_finish :: "settings \<Rightarrow> smoke_answers \<Rightarrow> go_error option \<times> smoke_event list" where
  "smoke_finish env ans =
     (let evs = [StopServer (envDuration env ''VIALITE_SMOKE_STOP_TIMEOUT'' (30 * second)), CancelRun] in
      case a_stop ans of
        None \<Rightarrow> (runtime_result (a_started ans), evs)
      | Some e \<Rightarrow>
          if errors_is e ErrNotStarted then (runtime_result (a_started ans), evs)
          else (Some (Wrapped e [''stop vialite'']), evs))"

text \<open>From the start of the server on.\<close>

definition smoke_serve ::
  "settings \<Rightarrow> string list \<Rightarrow> smoke_answers \<Rightarrow> options \<Rightarrow> string list \<Rightarrow> go_error option \<times> smoke_event list" where
  "smoke_serve env environ ans opts command =
     (let evs = [StartServer opts, WaitServer (envDuration env ''VIALITE_SMOKE_READY_TIMEOUT'' (90 * second))] in
      case a_wait ans of
        Some e \<Rightarrow> (Some (Wrapped e [''wait for vialite'']), evs @ [CancelRun])
      | None \<Rightarrow>
          (case a_dial ans of
             Inl e \<Rightarrow> (Some (Wrapped e [''resolve vialite backend address'']), evs @ [DialAddress ''craftless'', CancelRun])
           | Inr dialAddress \<Rightarrow>
               (case SplitHostPort dialAddress of
                  Inl e \<Rightarrow> (Some (Wrapped e [''parse vialite dial address'', dialAddress]),
                            evs @ [DialAddress ''craftless'', CancelRun])
                | Inr (host, port) \<Rightarrow>
                    (let evs2 = evs @ [DialAddress ''craftless'', RunClient command (client_env environ host port)] in
                     case a_client ans of
                       Some e \<Rightarrow> (Some (Wrapped e [''craftless client command'']), evs2 @ [CancelRun])
                     | None \<Rightarrow> (case smoke_finish env ans of (err, evs3) \<Rightarrow> (err, evs2 @ evs3))))))"

definition smoke_run ::
  "settings \<Rightarrow> string list \<Rightarrow> smoke_answers \<Rightarrow> go_error option \<times> smoke_event list" where
  "smoke_run env environ ans =
     (let backendPort = env port_key in
      if backendPort = [] then (Some (NewError ''CRAFTLESS_SMOKE_SERVER_PORT is required'' []), [])
      else
        (let backendHost = envDefault env ''VIALITE_SMOKE_BACKEND_HOST'' ''127.0.0.1'';
             backendAddress = JoinHostPort backendHost backendPort
         in case smokeMode (env ''VIALITE_SMOKE_MODE'') of
              Inl e \<Rightarrow> (Some e, [])
            | Inr m \<Rightarrow>
                (case clientCommand env of
                   Inl e \<Rightarrow> (Some e, [])
                 | Inr command \<Rightarrow>
                     (case server_New (smoke_options env m backendAddress) of
                        Inl e \<Rightarrow> (Some e, [CancelRun])
                      | Inr (opts, runner) \<Rightarrow> smoke_serve env environ ans opts command))))"

section \<open>The filter in place\<close>

lemma filter_in_place_eq:
  "n \<le> i \<Longrightarrow> i + todo = length env \<Longrightarrow>
     filter_in_place prefix todo i n env
       = take n env @ filter (\<lambda>e. \<not> HasPrefix e prefix) (drop i env)"
proof (induction prefix todo i n env rule: filter_in_place.induct)
  case (2 prefix todo i n env)
  then have i: "i < length env" by simp
  show ?case
  proof (cases "HasPrefix (env ! i) prefix")
    case True
    with 2 i show ?thesis by (simp add: Cons_nth_drop_Suc [symmetric])
  next
    case False
    have "take (Suc n) (env[n := env ! i]) = take n env @ [env ! i]"
      using "2.prems" i by (simp add: take_Suc_conv_app_nth)
    moreover have "drop (Suc i) (env[n := env ! i]) = drop (Suc i) env"
      using "2.prems" by (simp add: drop_update_cancel)
    ultimately show ?thesis using False "2.IH"(1) [OF False] "2.prems" i
      by (simp add: Cons_nth_drop_Suc [symmetric])
  qed
qed simp

lemma appendEnv_eq:
  "appendEnv env key value = filter (\<lambda>e. \<not> HasPrefix e (key @ ''='')) env @ [key @ ''='' @ value]"
  by (simp add: appendEnv_def Let_def filter_in_place_eq)

text \<open>The entries of a variable.\<close>

definition entries_of :: "string \<Rightarrow> string list \<Rightarrow> string list" where
  "entries_of key environ = filter (\<lambda>e. HasPrefix e (key @ ''='')) environ"

lemma entries_of_appendEnv:
  "entries_of key (appendEnv environ key value) = [key @ ''='' @ value]"
  using HasPrefix_append [of "key @ ''=''" "value"] by (simp add: entries_of_def appendEnv_eq filter_filter)

lemma HasPrefix_key:
  assumes "CHR ''='' \<notin> set key" and "CHR ''='' \<notin> set key'" and "key \<noteq> key'"
  shows "\<not> HasPrefix (key @ ''='' @ value) (key' @ ''='')"
proof
  assume "HasPrefix (key @ ''='' @ value) (key' @ ''='')"
  then obtain t where t: "key @ CHR ''='' # value = key' @ CHR ''='' # t" by (auto simp: HasPrefix_iff)
  have "takeWhile (\<lambda>c. c \<noteq> CHR ''='') (k @ CHR ''='' # u) = k" if "CHR ''='' \<notin> set k" for k u
    using that by (induction k) auto
  with t assms(1,2) have "key = key'" by metis
  with assms(3) show False by simp
qed

lemma entries_of_appendEnv_other:
  assumes "CHR ''='' \<notin> set key" and "CHR ''='' \<notin> set key'" and "key \<noteq> key'"
  shows "entries_of key' (appendEnv environ key value) = entries_of key' environ"
proof -
  have "HasPrefix e (key' @ ''='') \<Longrightarrow> \<not> HasPrefix e (key @ ''='')" for e
    using HasPrefix_key [OF assms(2,1)] assms(3) by (auto simp: HasPrefix_iff)
  then have "filter (\<lambda>e. \<not> HasPrefix e (key @ ''='') \<and> HasPrefix e (key' @ ''='')) environ
      = filter (\<lambda>e. HasPrefix e (key' @ ''='')) environ"
    by (metis (no_types, lifting))
  then show ?thesis using HasPrefix_key [OF assms]
    by (simp add: entries_of_def appendEnv_eq filter_filter conj_commute)
qed

lemma keys_plain:
  "CHR ''='' \<notin> set host_key" "CHR ''='' \<notin> set port_key" "host_key \<noteq> port_key"
  by (simp_all add: host_key_def port_key_def)

lemma client_env_entries:
  "entries_of host_key (client_env environ h p) = [host_key @ ''='' @ h]"
  "entries_of port_key (client_env environ h p) = [port_key @ ''='' @ p]"
  using keys_plain by (simp_all add: client_env_def entries_of_appendEnv entries_of_appendEnv_other)

lemma client_env_others:
  assumes "CHR ''='' \<notin> set key" and "key \<noteq> host_key" and "key \<noteq> port_key"
  shows "entries_of key (client_env environ h p) = entries_of key environ"
  using keys_plain assms by (simp add: client_env_def entries_of_appendEnv_other)

section \<open>Properties\<close>

lemma smoke_serve_client:
  assumes "RunClient command cenv \<in> set (snd (smoke_serve env environ ans opts cmd))"
  shows "\<exists>a h p. a_wait ans = None \<and> a_dial ans = Inr a \<and> SplitHostPort a = Inr (h, p) \<and> command = cmd
    \<and> cenv = client_env environ h p"
  using assms
  by (auto simp: smoke_serve_def smoke_finish_def Let_def split: option.splits sum.splits prod.splits if_splits)

text \<open>C34: The loop of \<open>appendEnv\<close>, which overwrites the front of the slice it is reading,
  computes the filtered copy: every entry of the variable goes, all others stay in order,
  and the new value is the last entry.\<close>

theorem append_env_filters:
  "appendEnv env key value = filter (\<lambda>e. \<not> HasPrefix e (key @ ''='')) env @ [key @ ''='' @ value]"
  by (rule appendEnv_eq)

text \<open>C33: The client runs only against a ready server, and its environment names the
  translated address and nothing else: the host and port variables have exactly one entry
  each, the two halves of the address the server gave out, and all other variables are as
  in the environment of the proxy.\<close>

theorem client_sees_the_translated_address:
  assumes "RunClient command cenv \<in> set (snd (smoke_run env environ ans))"
  shows "\<exists>a h p. a_wait ans = None \<and> a_dial ans = Inr a \<and> SplitHostPort a = Inr (h, p)
    \<and> clientCommand env = Inr command
    \<and> entries_of host_key cenv = [host_key @ ''='' @ h] \<and> entries_of port_key cenv = [port_key @ ''='' @ p]
    \<and> (\<forall>key. CHR ''='' \<notin> set key \<and> key \<notin> {host_key, port_key} \<longrightarrow> entries_of key cenv = entries_of key environ)"
proof -
  obtain opts cmd where c: "clientCommand env = Inr cmd"
      "RunClient command cenv \<in> set (snd (smoke_serve env environ ans opts cmd))"
    using assms by (auto simp: smoke_run_def Let_def split: if_splits sum.splits prod.splits)
  from smoke_serve_client [OF c(2)] c(1) client_env_entries client_env_others show ?thesis by fastforce
qed

definition demo_settings :: settings where
  "demo_settings name =
     (if name = port_key then ''25565''
      else if name = command_variable then singleton_text ''client''
      else if name = ''VIALITE_SMOKE_MODE'' then '' Subprocess ''
      else [])"

definition demo_answers :: smoke_answers where
  "demo_answers = \<lparr>a_wait = None, a_dial = Inr ''127.0.0.1:20001'', a_client = None, a_stop = None, a_started = Some None\<rparr>"

lemma demo_command: "clientCommand demo_settings = Inr [''client'']"
proof -
  have "unmarshal_strings (singleton_text ''client'') = Inr [''client'']"
    using parse_singleton_text [of "''client''"]
    by (simp add: unmarshal_strings_def store_strings_def ascii_def)
  moreover have "demo_settings command_variable = singleton_text ''client''"
    by (simp add: demo_settings_def command_variable_def port_key_def)
  moreover have "singleton_text ''client'' \<noteq> []" by (simp add: singleton_text_def)
  ultimately show ?thesis by (simp add: clientCommand_def text_simps)
qed

lemma demo_smoke_server:
  "\<exists>opts. server_New (smoke_options demo_settings ModeSubprocess (JoinHostPort ''127.0.0.1'' ''25565'')) = Inr (opts, SubprocessRunner)"
proof -
  have "acceptable_backend \<lparr>b_Name = ''craftless'', b_Address = JoinHostPort ''127.0.0.1'' ''25565'', b_Version = v,
      b_Detect = False, b_Forwarding = ForwardingNone\<rparr>" for v
    unfolding acceptable_backend_def backend.select_convs by code_simp
  then have "snd (validate (smoke_options demo_settings ModeSubprocess (JoinHostPort ''127.0.0.1'' ''25565''))) = None"
    by (simp add: validate_accepts_iff smoke_options_def)
  moreover have "ModeSubprocess \<noteq> ModeEmbedded" by (simp add: ModeSubprocess_def ModeEmbedded_def)
  ultimately show ?thesis
    by (auto simp: server_New_def smoke_options_def dest: validate_frame split: prod.splits)
qed

lemma client_sees_the_translated_address_witness:
  "\<exists>cenv. RunClient [''client''] cenv \<in> set (snd (smoke_run demo_settings [''A=1'', ''CRAFTLESS_SMOKE_SERVER_PORT=25565''] demo_answers))
     \<and> entries_of port_key cenv = [port_key @ ''=20001'']"
proof -
  let ?e = "[''A=1'', ''CRAFTLESS_SMOKE_SERVER_PORT=25565'']"
  obtain opts where o: "server_New (smoke_options demo_settings ModeSubprocess (JoinHostPort ''127.0.0.1'' ''25565'')) = Inr (opts, SubprocessRunner)"
    using demo_smoke_server by blast
  have s: "demo_settings port_key = ''25565''" "envDefault demo_settings ''VIALITE_SMOKE_BACKEND_HOST'' ''127.0.0.1'' = ''127.0.0.1''"
    by (simp_all add: demo_settings_def envDefault_def port_key_def command_variable_def)
  have m: "smokeMode (demo_settings ''VIALITE_SMOKE_MODE'') = Inr ModeSubprocess"
    unfolding demo_settings_def port_key_def command_variable_def by code_simp
  have sp: "SplitHostPort ''127.0.0.1:20001'' = Inr (''127.0.0.1'', ''20001'')" by code_simp
  have r: "smoke_run demo_settings ?e demo_answers = smoke_serve demo_settings ?e demo_answers opts [''client'']"
    using o by (simp add: smoke_run_def s m demo_command)
  have "\<exists>cenv. RunClient [''client''] cenv \<in> set (snd (smoke_serve demo_settings ?e demo_answers opts [''client'']))"
    by (simp add: smoke_serve_def demo_answers_def sp smoke_finish_def Let_def split: prod.split)
  then obtain cenv where c: "RunClient [''client''] cenv \<in> set (snd (smoke_run demo_settings ?e demo_answers))"
    using r by auto
  from client_sees_the_translated_address [OF this] c sp show ?thesis by (auto simp: demo_answers_def)
qed

end
