(* ===== verification/Spec2Isabelle.thy ===== *)
theory Spec2Isabelle
  imports Prelude GoLib Errors Options ConfigJson Json Sha256 Files Addresses ListenerOwner
    RunLoop Subprocess Interleaving RegistryInv RegistrySteps RegistryTheorems RegistryProps
    BackendRegistry AddBackend Embedded Server Download DownloadProps Locate GateAdapter SmokeProxy
begin

text \<open>
  A model of \<^verbatim>\<open>vialite\<close>, the Go module under \<^verbatim>\<open>src/go\<close> that runs a native
  Via runtime for a proxy and gives out, for every configured or dynamically added backend,
  the loopback address at which that backend can be dialled through the translation.

  \<^bold>\<open>The program.\<close> A \<^verbatim>\<open>Server\<close> (\<^verbatim>\<open>server.go\<close>) is made from validated
  \<^verbatim>\<open>Options\<close> (\<^verbatim>\<open>options.go\<close>, \<^verbatim>\<open>vialite.go\<close>) and owns one runner. The
  embedded runner (\<^verbatim>\<open>embedded.go\<close>) calls a native library in the process. The
  subprocess runner (\<^verbatim>\<open>subprocess.go\<close>) starts the native binary for the static
  backends, restarts it by a policy, and starts one more process per dynamic backend; it
  allocates the loopback addresses itself, writes the JSON configuration
  (\<^verbatim>\<open>config.go\<close>), waits until the listeners answer and checks in \<^verbatim>\<open>/proc\<close> who
  owns them (\<^verbatim>\<open>listener_owner_linux.go\<close>). The native artifacts are located or
  downloaded (\<^verbatim>\<open>locate.go\<close>, \<^verbatim>\<open>embed_helpers.go\<close>, \<^verbatim>\<open>download.go\<close>). Two
  clients sit on top: the adapter for Gate (\<^verbatim>\<open>integration/gate\<close>) and the smoke proxy
  (\<^verbatim>\<open>cmd/craftless-vialite-smoke-proxy\<close>).

  \<^bold>\<open>The theories.\<close>
  \<^item> \<open>Prelude\<close>, \<open>GoLib\<close>, \<open>Errors\<close>: results as sums, maps with their enumerations, the
    functions of \<^verbatim>\<open>strings\<close>, \<^verbatim>\<open>strconv\<close>, \<^verbatim>\<open>net\<close> and \<^verbatim>\<open>errors\<close> the
    sources use, the sentinel errors.
  \<^item> \<open>Options\<close>: the option types, \<open>validate\<close> and \<open>normalizeBackend\<close>, down to what the
    caller's slice holds after an error; which options are accepted, that accepted ones are
    well-formed and a fixed point, and which error wins.
  \<^item> \<open>ConfigJson\<close>, \<open>Json\<close>: the text \<^verbatim>\<open>json.Marshal\<close> writes, with a reader that
    gives every field back, and \<^verbatim>\<open>json.Unmarshal\<close> for the release metadata and the
    client command.
  \<^item> \<open>Addresses\<close>: static and dynamic loopback addresses; \<open>ListenerOwner\<close>: the owner check,
    with the kernel's tables as printed rows.
  \<^item> \<open>RunLoop\<close>: \<open>subprocessRunner.run\<close> as a list of events, over a script of what the
    processes, polls and contexts answer.
  \<^item> \<open>Subprocess\<close>, \<open>Interleaving\<close>: the critical sections of \<open>addBackend\<close>,
    \<open>removeBackend\<close>, \<open>stopDynamicBackends\<close> and \<open>dynamicBackendExited\<close>, one step each, and
    their interleavings; \<open>RegistryInv\<close>, \<open>RegistrySteps\<close>, \<open>RegistryTheorems\<close>: the invariant
    of the registry, its preservation by every step; \<open>RegistryProps\<close>: what follows.
  \<^item> \<open>BackendRegistry\<close>: the interface of a runner as a locale, an abstract map of lookup
    names to addresses, and the refinement of any provider; \<open>AddBackend\<close> and \<open>Embedded\<close>:
    the two providers and their interpretations.
  \<^item> \<open>Server\<close>: the facade over any provider, and the life cycle of \<open>Start\<close>, \<open>Stop\<close> and
    \<open>WaitReady\<close> as interleaved steps.
  \<^item> \<open>Sha256\<close>, \<open>Files\<close>, \<open>Download\<close>, \<open>DownloadProps\<close>, \<open>Locate\<close>: digests, paths and files,
    the download into the cache, the search for the runtime; a locale for the providers of
    verified files with the extraction and the download as its interpretations.
  \<^item> \<open>GateAdapter\<close>, \<open>SmokeProxy\<close>: the two clients.

  \<^bold>\<open>How the state corresponds.\<close> A Go struct is a record, a map a partial function, a
  \<^verbatim>\<open>time.Duration\<close> a 64-bit word (the timeouts of the smoke proxy are mathematical
  integers, \<^verbatim>\<open>ParseDuration\<close> checks their range). A mutex-protected section is one
  step, everything else an answer of the environment: the kernel's ports, the random source,
  the processes, the native library, the network and the failures of system calls are
  arguments. Several goroutines are several threads of one step relation.

  \<^bold>\<open>Fuel and bounds.\<close> \<open>run_loop\<close> is bounded by the retries, and
  \<open>run_returns_within_retries\<close> shows that the bound is met; \<open>parse_json\<close> passes twice the
  length of its text, enough by \<open>jvalue_total\<close>; \<open>duration_parts\<close> passes the length of the
  text, every part consumes a character; \<open>read_list\<close> is bounded by the length of its text.

  \<^bold>\<open>Not modelled.\<close> Log output (\<^verbatim>\<open>logRuntimeResolution\<close> and the warning of the
  version fallback); opening the native library and binding its symbols
  (\<^verbatim>\<open>library_unix.go\<close>, \<^verbatim>\<open>library_windows.go\<close>, calls of a third-party package);
  sending a signal (\<^verbatim>\<open>subprocess_unix.go\<close>, \<^verbatim>\<open>subprocess_other.go\<close>, one system
  call each, an answer of the stop); the bytes of the embedded assets, a build input; paths
  with Windows separators; text beyond ASCII in the case and blank functions. The Java
  sources, build scripts, workflows and documents are not Go and not part of the model.
\<close>

section \<open>From validation to published addresses\<close>

lemma store_all_index:
  assumes "length as = length bs" and "distinct (lookup_names bs)" and "store_all bs as Map.empty q = Some a"
  shows "\<exists>j < length bs. a = as ! j \<and> backendLookupName q = backendLookupName (b_Name (bs ! j))"
proof -
  have "q \<in> b_Name ` set bs \<or> q \<in> set (lookup_names bs)"
    using assms(3) dom_store_all [OF assms(1), of Map.empty] by auto
  then obtain j where j: "j < length bs" "q = b_Name (bs ! j) \<or> q = backendLookupName (b_Name (bs ! j))"
    by (auto simp: lookup_names_def in_set_conv_nth)
  with store_all_lookup [OF assms(1,2) j(1), of q] assms(3) have "a = as ! j" by auto
  with j show ?thesis by auto
qed

text \<open>The hypothesis of the registry theorems holds of the static addresses when the system
  gave every probe its own port.\<close>

lemma static_allocation_ok:
  assumes "wf_options opts"
    and "loopbackBackendAddresses env t (o_Bind opts) (o_Backends opts) = (Inr m, t')"
    and "distinct (map (\<lambda>b. lookup_address m (b_Name b)) (o_Backends opts))"
  shows "static_ok m"
proof -
  let ?bs = "o_Backends opts"
  have d: "distinct (lookup_names ?bs)" using assms(1) by (simp add: wf_options_def)
  obtain as where as: "length as = length ?bs" "m = store_all ?bs as Map.empty"
    using loopbackBackendAddresses_ok [OF assms(2)] by blast
  have look: "lookup_address m (b_Name (?bs ! j)) = Inr (as ! j)" if "j < length ?bs" for j
    using lookup_store_all [OF as(1) d that] as(2) by simp
  have inj: "i = j" if "i < length ?bs" "j < length ?bs" "as ! i = as ! j" for i j
    using assms(3) that look by (simp add: distinct_conv_nth) metis
  have index: "\<exists>j < length ?bs. a = as ! j \<and> backendLookupName q = backendLookupName (b_Name (?bs ! j))"
    if "m q = Some a" for q a
    using store_all_index [OF as(1) d] that as(2) by blast
  have "m (backendLookupName q) = Some a" if q: "m q = Some a" for q a
  proof -
    obtain j where j: "j < length ?bs" "a = as ! j" "backendLookupName q = backendLookupName (b_Name (?bs ! j))"
      using index [OF q] by blast
    have "store_all ?bs as Map.empty (backendLookupName (b_Name (?bs ! j))) = Some (as ! j)"
      by (rule store_all_lookup [OF as(1) d j(1)]) simp
    with j show ?thesis by (simp add: as(2))
  qed
  moreover have "backendLookupName p = backendLookupName q" if "m p = Some a" "m q = Some a" for p q a
    using index [OF that(1)] index [OF that(2)] inj by metis
  ultimately show ?thesis unfolding static_ok_def inv_alias_def by blast
qed



section \<open>The server over its two runners\<close>

text \<open>C9: Through the server, on the subprocess runner: an address that \<open>AddBackend\<close> returned
  is what \<open>BackendDialAddress\<close> answers for every spelling of the name, and after a
  \<open>RemoveBackend\<close> under any spelling that succeeded, the name is not found.\<close>

theorem subprocess_server_add_dial_remove:
  assumes "sub_inv (f_runner (the so))" and "AddBackend addBackend x b so = (Inr a, so')"
    and "backendLookupName q = backendLookupName (b_Name b)"
    and "backendLookupName n = backendLookupName (b_Name b)"
  shows "BackendDialAddress backendAddress so' q = Inr a
    \<and> (\<forall>y so''. RemoveBackend removeBackend y n so' = (None, so'') \<longrightarrow>
         BackendDialAddress backendAddress so'' q = Inl (Sentinel ErrBackendNotFound))"
  by (rule backend_registry.add_dial_remove [OF sub.backend_registry_axioms assms])

text \<open>The same for the embedded runner.\<close>

lemma embedded_server_add_dial_remove:
  assumes "emb_inv (f_runner (the so))" and "AddBackend e_addBackend x b so = (Inr a, so')"
    and "backendLookupName q = backendLookupName (b_Name b)"
    and "backendLookupName n = backendLookupName (b_Name b)"
  shows "BackendDialAddress e_backendAddress so' q = Inr a
    \<and> (\<forall>y so''. RemoveBackend e_removeBackend y n so' = (None, so'') \<longrightarrow>
         BackendDialAddress e_backendAddress so'' q = Inl (Sentinel ErrBackendNotFound))"
  by (rule backend_registry.add_dial_remove [OF emb.backend_registry_axioms assms])

lemma subprocess_server_add_dial_remove_witness:
  "\<exists>so'. AddBackend addBackend (demo_adding None) demo_alpha
       (Some \<lparr>f_started = True, f_ready = True, f_runner = demo_runner\<rparr>) = (Inr demo_addr, so')
     \<and> BackendDialAddress backendAddress so' '' ALPHA '' = Inr demo_addr"
proof -
  let ?so = "Some \<lparr>f_started = True, f_ready = True, f_runner = demo_runner\<rparr>"
  let ?so' = "Some \<lparr>f_started = True, f_ready = True, f_runner = demo_after\<rparr>"
  have "wf_backend demo_alpha" by code_simp
  then have "normalizeBackend demo_alpha = (demo_alpha, None)" by (rule wf_normalizeBackend)
  then have add: "AddBackend addBackend (demo_adding None) demo_alpha ?so = (Inr demo_addr, ?so')"
    by (simp add: AddBackend_def not_serving_def demo_add_succeeds)
  have k: "backendLookupName '' ALPHA '' = backendLookupName (b_Name demo_alpha)" by code_simp
  have "sub_inv (f_runner (the ?so))" using demo_sub_inv by simp
  from subprocess_server_add_dial_remove [OF this add k k] add show ?thesis by blast
qed

end
